theory Spec2Isabelle
  imports Complex_Main
begin

section \<open>Values and errors\<close>

text \<open>
  A float64 is modelled by the real number it denotes, or by \<open>NaN\<close>. Rounding is not
  modelled. Every ordered comparison with \<open>NaN\<close> is false, as in IEEE 754.
\<close>

datatype fl = NaN | Fin real

fun fl_ge :: "fl \<Rightarrow> fl \<Rightarrow> bool" where
  "fl_ge (Fin a) (Fin b) = (b \<le> a)"
| "fl_ge _ _ = False"

fun fl_gt :: "fl \<Rightarrow> fl \<Rightarrow> bool" where
  "fl_gt (Fin a) (Fin b) = (b < a)"
| "fl_gt _ _ = False"

fun fl_abs :: "fl \<Rightarrow> fl" where
  "fl_abs (Fin a) = Fin \<bar>a\<bar>"
| "fl_abs NaN = NaN"

text \<open>
  A count divided by a size, in numpy: true division; \<open>0 / 0\<close> is \<open>nan\<close> (with a warning,
  no exception). Where it is used, an array of size 0 has nothing to count, so the
  count is 0 whenever the size is.
\<close>

definition np_true_divide :: "nat \<Rightarrow> nat \<Rightarrow> fl" where
  "np_true_divide a n = (if n = 0 then NaN else Fin (real a / real n))"

text \<open>The exceptions the modelled functions can raise.\<close>

datatype error = AssertionError | IndexError | ZeroDivisionError

section \<open>Metric engine\<close>

text \<open>
  \<open>np.sum(np.logical_and(a == u, b == v))\<close>: the number of positions at which the first
  array holds \<open>u\<close> and the second holds \<open>v\<close>. Both arrays have the same length when this is
  evaluated (the assertion of \<open>compute_f1\<close> comes first).
\<close>

definition count_both :: "int list \<Rightarrow> int \<Rightarrow> int list \<Rightarrow> int \<Rightarrow> nat" where
  "count_both a u b v = length (filter (\<lambda>(p, q). p = u \<and> q = v) (zip a b))"

text \<open>\<open>compute_f1(y_true, y_pred)\<close>, lines 184 to 223.\<close>

definition compute_f1 :: "int list \<Rightarrow> int list \<Rightarrow> error + real" where
  "compute_f1 y_true y_pred =
     (if length y_true \<noteq> length y_pred then Inl AssertionError
      else
        let TP = count_both y_pred 1 y_true 1;
            FP = count_both y_pred 1 y_true 0;
            FN = count_both y_pred 0 y_true 1;
            precision = (if TP + FP \<noteq> 0 then real TP / real (TP + FP) else 0);
            recall = (if TP + FN \<noteq> 0 then real TP / real (TP + FN) else 0)
        in Inr (if precision + recall \<noteq> 0
                then 2 * (precision * recall) / (precision + recall)
                else 0))"

text \<open>
  \<open>calculate_metrics(y_true, y_pred)\<close>, lines 371 to 395. The loop runs over
  \<open>zip(y_true, y_pred)\<close>, which stops at the end of the shorter sequence. The counters
  are \<open>(TP, FP, TN, FN)\<close>.
\<close>

fun metrics_loop :: "(int \<times> int) list \<Rightarrow> nat \<times> nat \<times> nat \<times> nat \<Rightarrow> nat \<times> nat \<times> nat \<times> nat" where
  "metrics_loop [] acc = acc"
| "metrics_loop ((yt, yp) # rest) (TP, FP, TN, FN) =
     metrics_loop rest
       (if yt = 1 \<and> yp = 1 then (TP + 1, FP, TN, FN)
        else if yt = 0 \<and> yp = 1 then (TP, FP + 1, TN, FN)
        else if yt = 1 \<and> yp = 0 then (TP, FP, TN, FN + 1)
        else if yt = 0 \<and> yp = 0 then (TP, FP, TN + 1, FN)
        else (TP, FP, TN, FN))"

definition calculate_metrics :: "int list \<Rightarrow> int list \<Rightarrow> nat \<times> nat \<times> nat \<times> nat" where
  "calculate_metrics y_true y_pred = metrics_loop (zip y_true y_pred) (0, 0, 0, 0)"

section \<open>Fold partitioner and cross-validator\<close>

text \<open>
  \<open>a[lo:hi]\<close> for \<open>0 \<le> lo \<le> hi\<close>: a slice is cut at the end of the array and never
  raises.
\<close>

definition slice :: "'a list \<Rightarrow> nat \<Rightarrow> nat \<Rightarrow> 'a list" where
  "slice xs lo hi = take (hi - lo) (drop lo xs)"

text \<open>
  \<open>np.setdiff1d(ar1, ar2)\<close>: the sorted, unique values of \<open>ar1\<close> that are not in \<open>ar2\<close>.
\<close>

definition setdiff1d :: "nat list \<Rightarrow> nat list \<Rightarrow> nat list" where
  "setdiff1d ar1 ar2 = filter (\<lambda>v. v \<notin> set ar2) (sort (remdups ar1))"

text \<open>\<open>a[idx]\<close> with an array of indices: an index past the end raises \<open>IndexError\<close>.\<close>

definition take_rows :: "'a list \<Rightarrow> nat list \<Rightarrow> error + 'a list" where
  "take_rows a idx =
     (if list_all (\<lambda>i. i < length a) idx then Inr (map (\<lambda>i. a ! i) idx) else Inl IndexError)"

text \<open>\<open>np.mean\<close>: the mean of an empty array is \<open>nan\<close>, and so is a mean over a \<open>nan\<close>.\<close>

definition np_mean :: "fl list \<Rightarrow> fl" where
  "np_mean vs =
     (if vs = [] \<or> NaN \<in> set vs then NaN
      else Fin (sum_list (map (\<lambda>v. case v of Fin r \<Rightarrow> r | NaN \<Rightarrow> 0) vs) / real (length vs)))"

text \<open>
  \<open>np.mean(y_pred == y_test)\<close>: the predictions are booleans, and \<open>True == 1\<close>,
  \<open>False == 0\<close>.
\<close>

definition label_of :: "bool \<Rightarrow> int" where
  "label_of b = (if b then 1 else 0)"

definition mean_match :: "bool list \<Rightarrow> int list \<Rightarrow> fl" where
  "mean_match y_pred y_test =
     np_true_divide (length (filter (\<lambda>(p, t). label_of p = t) (zip y_pred y_test)))
       (length y_pred)"

text \<open>
  \<open>predict_logistic(X, w, threshold)\<close>, lines 67 to 78. \<open>sigmoid\<close> is imported from a
  module that is not part of these sources, so the decision \<open>sigmoid(x @ w) >= threshold\<close>
  for one sample \<open>x\<close> is a parameter; the prediction has one entry per sample.
\<close>

definition predict_logistic :: "('x \<Rightarrow> 'w \<Rightarrow> fl \<Rightarrow> bool) \<Rightarrow> 'x list \<Rightarrow> 'w \<Rightarrow> fl \<Rightarrow> bool list" where
  "predict_logistic decide X w threshold = map (\<lambda>x. decide x w threshold) X"

text \<open>Lines 121 and 122: the test and train indices of fold \<open>i\<close>.\<close>

definition test_indices :: "nat list \<Rightarrow> nat \<Rightarrow> nat \<Rightarrow> nat list" where
  "test_indices indices fold_size i = slice indices (i * fold_size) ((i + 1) * fold_size)"

definition train_indices :: "nat list \<Rightarrow> nat \<Rightarrow> nat \<Rightarrow> nat list" where
  "train_indices indices fold_size i = setdiff1d indices (test_indices indices fold_size i)"

text \<open>
  The body of the loop over the folds, lines 121 to 136, and the loop. \<open>X\<close> is the list
  of the samples (the rows), \<open>y\<close> the labels; \<open>model\<close> is the caller's training function,
  which may raise; the dictionary \<open>model_params\<close> is passed to it as keyword arguments.
\<close>

type_synonym 'v params = "string \<rightharpoonup> 'v"

type_synonym ('x, 'v, 'w) fit = "int list \<Rightarrow> 'x list \<Rightarrow> 'v params \<Rightarrow> error + ('w \<times> fl)"

definition fold_scores ::
  "('x, 'v, 'w) fit \<Rightarrow> ('x \<Rightarrow> 'w \<Rightarrow> fl \<Rightarrow> bool) \<Rightarrow> 'x list \<Rightarrow> int list \<Rightarrow> 'v params \<Rightarrow> fl \<Rightarrow>
   nat list \<Rightarrow> nat \<Rightarrow> nat \<Rightarrow> error + (fl \<times> fl)" where
  "fold_scores model decide X y model_params threshold indices fold_size i =
     (let test = test_indices indices fold_size i;
          train = train_indices indices fold_size i in
      case take_rows X train of Inl e \<Rightarrow> Inl e | Inr X_train \<Rightarrow>
      case take_rows X test of Inl e \<Rightarrow> Inl e | Inr X_test \<Rightarrow>
      case take_rows y train of Inl e \<Rightarrow> Inl e | Inr y_train \<Rightarrow>
      case take_rows y test of Inl e \<Rightarrow> Inl e | Inr y_test \<Rightarrow>
      case model y_train X_train model_params of Inl e \<Rightarrow> Inl e | Inr (w, loss) \<Rightarrow>
        let y_pred = predict_logistic decide X_test w threshold;
            accuracy = mean_match y_pred y_test in
        case compute_f1 y_test (map label_of y_pred) of Inl e \<Rightarrow> Inl e
        | Inr f1 \<Rightarrow> Inr (accuracy, Fin f1))"

fun fold_loop ::
  "('x, 'v, 'w) fit \<Rightarrow> ('x \<Rightarrow> 'w \<Rightarrow> fl \<Rightarrow> bool) \<Rightarrow> 'x list \<Rightarrow> int list \<Rightarrow> 'v params \<Rightarrow> fl \<Rightarrow>
   nat list \<Rightarrow> nat \<Rightarrow> nat list \<Rightarrow> fl list \<Rightarrow> fl list \<Rightarrow> error + (fl list \<times> fl list)" where
  "fold_loop model decide X y model_params threshold indices fold_size [] accuracies f1_scores =
     Inr (accuracies, f1_scores)"
| "fold_loop model decide X y model_params threshold indices fold_size (i # rest) accuracies f1_scores =
     (case fold_scores model decide X y model_params threshold indices fold_size i of
        Inl e \<Rightarrow> Inl e
      | Inr (accuracy, f1) \<Rightarrow>
          fold_loop model decide X y model_params threshold indices fold_size rest
            (accuracies @ [accuracy]) (f1_scores @ [f1]))"

text \<open>
  \<open>k_fold_cross_validation(X, y, model, k, model_params, threshold)\<close>, lines 98 to 142.
  \<open>np.random.shuffle\<close> reads and advances the generator of the process: \<open>shuffle\<close> takes the
  state of the generator and the number of samples and returns the shuffled
  \<open>np.arange(num_samples)\<close> with the next state. \<open>num_samples // k\<close> raises on \<open>k = 0\<close>; for a
  negative \<open>k\<close> the quotient is not used, since \<open>range(k)\<close> is empty.
\<close>

definition k_fold_cross_validation ::
  "('r \<Rightarrow> nat \<Rightarrow> nat list \<times> 'r) \<Rightarrow> ('x \<Rightarrow> 'w \<Rightarrow> fl \<Rightarrow> bool) \<Rightarrow>
   'x list \<Rightarrow> int list \<Rightarrow> ('x, 'v, 'w) fit \<Rightarrow> int \<Rightarrow> 'v params \<Rightarrow> fl \<Rightarrow> 'r \<Rightarrow>
   error + ((fl \<times> fl) \<times> 'r)" where
  "k_fold_cross_validation shuffle decide X y model k model_params threshold rng =
     (let num_samples = length X;
          (indices, rng') = shuffle rng num_samples in
      if k = 0 then Inl ZeroDivisionError
      else
        let fold_size = nat (int num_samples div k) in
        case fold_loop model decide X y model_params threshold indices fold_size
               [0..<nat k] [] [] of
          Inl e \<Rightarrow> Inl e
        | Inr (accuracies, f1_scores) \<Rightarrow> Inr ((np_mean accuracies, np_mean f1_scores), rng'))"

section \<open>Hyperparameter search\<close>

text \<open>
  The variables of \<open>hyperparameter_tuning\<close>, the caller's dictionary \<open>model_params\<close>, which
  the function writes to, the state of the random generator, and the lines printed, each
  as the values it shows: \<open>(lambda_, gamma, accuracy, f1_score)\<close>.
\<close>

record ('v, 'r) search =
  best_accuracy :: fl
  best_f1_score :: fl
  best_param_lambda :: "'v option"
  best_param_gamma :: "'v option"
  model_params :: "'v params"
  rng :: 'r
  printed :: "('v \<times> 'v \<times> fl \<times> fl) list"

text \<open>
  Lines 166 to 179, the loop over \<open>lambdas\<close> for one \<open>gamma\<close>; \<open>cv\<close> is the call of the
  cross-validator of line 169 on the dictionary and the generator, and \<open>lambda\<close> stands for
  the loop variable \<open>lambda_\<close>.
\<close>

fun lambda_loop ::
  "('v params \<Rightarrow> 'r \<Rightarrow> error + ((fl \<times> fl) \<times> 'r)) \<Rightarrow> 'v \<Rightarrow> 'v list \<Rightarrow> ('v, 'r) search \<Rightarrow>
   error + ('v, 'r) search" where
  "lambda_loop cv gamma [] st = Inr st"
| "lambda_loop cv gamma (lambda # rest) st =
     (let params = (model_params st)(''lambda_'' \<mapsto> lambda, ''gamma'' \<mapsto> gamma) in
      case cv params (rng st) of
        Inl e \<Rightarrow> Inl e
      | Inr ((accuracy, f1_score), r) \<Rightarrow>
          let st1 = st\<lparr>model_params := params, rng := r\<rparr>;
              st2 = (if fl_ge f1_score (best_f1_score st1) \<and> fl_ge accuracy (best_accuracy st1)
                     then st1\<lparr>best_accuracy := accuracy, best_f1_score := f1_score,
                              best_param_lambda := Some lambda, best_param_gamma := Some gamma\<rparr>
                     else st1)
          in lambda_loop cv gamma rest
               (st2\<lparr>printed := printed st2 @ [(lambda, gamma, accuracy, f1_score)]\<rparr>))"

text \<open>Line 165, the loop over \<open>gammas\<close>.\<close>

fun gamma_loop ::
  "('v params \<Rightarrow> 'r \<Rightarrow> error + ((fl \<times> fl) \<times> 'r)) \<Rightarrow> 'v list \<Rightarrow> 'v list \<Rightarrow> ('v, 'r) search \<Rightarrow>
   error + ('v, 'r) search" where
  "gamma_loop cv lambdas [] st = Inr st"
| "gamma_loop cv lambdas (gamma # rest) st =
     (case lambda_loop cv gamma lambdas st of
        Inl e \<Rightarrow> Inl e
      | Inr st' \<Rightarrow> gamma_loop cv lambdas rest st')"

text \<open>
  \<open>hyperparameter_tuning(X, y, model, lambdas, gammas, model_params, k)\<close>, lines 145 to
  181. The cross-validator is called with its default threshold 0.5. The result is the
  returned pair together with what the call leaves behind: the dictionary, the generator
  and the printed lines.
\<close>

definition hyperparameter_tuning ::
  "('r \<Rightarrow> nat \<Rightarrow> nat list \<times> 'r) \<Rightarrow> ('x \<Rightarrow> 'w \<Rightarrow> fl \<Rightarrow> bool) \<Rightarrow>
   'x list \<Rightarrow> int list \<Rightarrow> ('x, 'v, 'w) fit \<Rightarrow> 'v list \<Rightarrow> 'v list \<Rightarrow> 'v params \<Rightarrow> int \<Rightarrow> 'r \<Rightarrow>
   error + (('v option \<times> 'v option) \<times> ('v, 'r) search)" where
  "hyperparameter_tuning shuffle decide X y model lambdas gammas params k rng0 =
     (case gamma_loop
             (\<lambda>p r. k_fold_cross_validation shuffle decide X y model k p (Fin (1 / 2)) r)
             lambdas gammas
             \<lparr>best_accuracy = Fin 0, best_f1_score = Fin 0,
              best_param_lambda = None, best_param_gamma = None,
              model_params = params, rng = rng0, printed = []\<rparr> of
        Inl e \<Rightarrow> Inl e
      | Inr st \<Rightarrow> Inr ((best_param_lambda st, best_param_gamma st), st))"

section \<open>Feature selector\<close>

text \<open>
  A two-dimensional array of shape \<open>(nrows, length columns)\<close>, held column by column:
  \<open>x[:, j]\<close> is \<open>columns x ! j\<close>, and every column has \<open>nrows\<close> entries.
\<close>

record matrix =
  nrows :: nat
  columns :: "fl list list"

definition ncols :: "matrix \<Rightarrow> nat" where
  "ncols x = length (columns x)"

text \<open>\<open>np.sum(col == v)\<close> and \<open>np.sum(np.isnan(col))\<close>.\<close>

definition count_eq :: "fl list \<Rightarrow> real \<Rightarrow> nat" where
  "count_eq col v = length (filter (\<lambda>x. x = Fin v) col)"

definition count_nan :: "fl list \<Rightarrow> nat" where
  "count_nan col = length (filter (\<lambda>x. x = NaN) col)"

text \<open>
  \<open>columns_to_remove(x_data, t)\<close>, lines 306 to 351: the body of the loop over \<open>j\<close>, then
  the loop. The percentages of the single groups are computed and not used.
\<close>

definition column_marked :: "matrix \<Rightarrow> fl \<Rightarrow> nat \<Rightarrow> bool" where
  "column_marked x_data t j =
     (let col = columns x_data ! j;
          num_nan = count_nan col;
          per_nan = np_true_divide num_nan (nrows x_data);
          num_2729 = count_eq col 77 + count_eq col 99;
          per_2729 = np_true_divide num_2729 (nrows x_data);
          num_3739 = count_eq col 777 + count_eq col 999;
          per_3739 = np_true_divide num_3739 (nrows x_data);
          num_4749 = count_eq col 7777 + count_eq col 9999;
          per_4749 = np_true_divide num_4749 (nrows x_data);
          num_6769 = count_eq col 777777 + count_eq col 999999;
          per_6769 = np_true_divide num_6769 (nrows x_data);
          num_remove = num_nan + num_2729 + num_3739 + num_4749 + num_6769;
          per_remove = np_true_divide num_remove (nrows x_data)
      in fl_ge per_remove t)"

fun remove_loop :: "matrix \<Rightarrow> fl \<Rightarrow> nat list \<Rightarrow> nat list \<Rightarrow> nat list" where
  "remove_loop x_data t [] remove = remove"
| "remove_loop x_data t (j # js) remove =
     remove_loop x_data t js (if column_marked x_data t j then remove @ [j] else remove)"

definition columns_to_remove :: "matrix \<Rightarrow> fl \<Rightarrow> nat list" where
  "columns_to_remove x_data t = remove_loop x_data t [0..<ncols x_data] []"

text \<open>
  What \<open>np.corrcoef(data, rowvar=False)\<close> returns is a parameter of the model (the
  floating-point computation is numpy's): either a square array of shape \<open>(n, n)\<close> with
  its entries, or, for a single variable, a zero-dimensional array (numpy squeezes the
  covariance), whose \<open>shape\<close> is the empty tuple.
\<close>

datatype corr_result = Corr0 fl | Corr2 nat "nat \<Rightarrow> nat \<Rightarrow> fl"

text \<open>\<open>corr_matrix.shape[0]\<close>: indexing the empty tuple raises \<open>IndexError\<close>.\<close>

fun shape0 :: "corr_result \<Rightarrow> error + nat" where
  "shape0 (Corr0 c) = Inl IndexError"
| "shape0 (Corr2 n c) = Inr n"

fun corr_entry :: "corr_result \<Rightarrow> nat \<Rightarrow> nat \<Rightarrow> fl" where
  "corr_entry (Corr2 n c) i j = c i j"
| "corr_entry (Corr0 c) i j = c"

text \<open>The two loops of lines 417 to 420, over \<open>j\<close> in \<open>range(i + 1, n)\<close> and over \<open>i\<close>.\<close>

fun mark_loop :: "corr_result \<Rightarrow> fl \<Rightarrow> nat \<Rightarrow> nat list \<Rightarrow> bool list \<Rightarrow> bool list" where
  "mark_loop corr_matrix threshold i [] drop_cols = drop_cols"
| "mark_loop corr_matrix threshold i (j # js) drop_cols =
     mark_loop corr_matrix threshold i js
       (if fl_gt (fl_abs (corr_entry corr_matrix i j)) threshold
        then drop_cols[j := True] else drop_cols)"

fun pair_loop :: "corr_result \<Rightarrow> fl \<Rightarrow> nat \<Rightarrow> nat list \<Rightarrow> bool list \<Rightarrow> bool list" where
  "pair_loop corr_matrix threshold n [] drop_cols = drop_cols"
| "pair_loop corr_matrix threshold n (i # is) drop_cols =
     pair_loop corr_matrix threshold n is
       (mark_loop corr_matrix threshold i [Suc i..<n] drop_cols)"

text \<open>
  \<open>x[:, ~drop_cols]\<close>: a boolean index whose length is not the number of columns raises
  \<open>IndexError\<close>; otherwise the columns whose entry is false are kept, in order.
\<close>

definition select_kept :: "matrix \<Rightarrow> bool list \<Rightarrow> error + matrix" where
  "select_kept x drop_cols =
     (if length drop_cols \<noteq> ncols x then Inl IndexError
      else Inr (x\<lparr>columns := map snd (filter (\<lambda>(d, c). \<not> d) (zip drop_cols (columns x)))\<rparr>))"

text \<open>\<open>drop_highly_correlated_features(data, threshold)\<close>, lines 398 to 423.\<close>

definition drop_highly_correlated_features ::
  "(matrix \<Rightarrow> corr_result) \<Rightarrow> matrix \<Rightarrow> fl \<Rightarrow> error + (matrix \<times> bool list)" where
  "drop_highly_correlated_features corrcoef data threshold =
     (let corr_matrix = corrcoef data in
      case shape0 corr_matrix of
        Inl e \<Rightarrow> Inl e
      | Inr n \<Rightarrow>
          let drop_cols = pair_loop corr_matrix threshold n [0..<n] (replicate n False) in
          (case select_kept data drop_cols of
             Inl e \<Rightarrow> Inl e
           | Inr kept \<Rightarrow> Inr (kept, drop_cols)))"

text \<open>\<open>drop_test_correlated_features(x_test, drop_cols)\<close>, lines 425 to 437.\<close>

definition drop_test_correlated_features :: "matrix \<Rightarrow> bool list \<Rightarrow> error + matrix" where
  "drop_test_correlated_features x_test drop_cols = select_kept x_test drop_cols"

text \<open>
  The density the specification describes: the entries of column \<open>j\<close> that are NaN or one
  of the sentinel codes, over the number of rows.
\<close>

definition sentinels :: "real list" where
  "sentinels = [77, 99, 777, 999, 7777, 9999, 777777, 999999]"

definition is_missing :: "fl \<Rightarrow> bool" where
  "is_missing x = (case x of NaN \<Rightarrow> True | Fin v \<Rightarrow> v \<in> set sentinels)"

definition missing_fraction :: "matrix \<Rightarrow> nat \<Rightarrow> fl" where
  "missing_fraction x j =
     np_true_divide (length (filter is_missing (columns x ! j))) (nrows x)"

text \<open>
  The F1 score as the specification words it, from index sets: the confusion counts are
  the numbers of positions with the given pair of labels, precision and recall are
  replaced by 0 on a zero denominator, and so is the score.
\<close>

definition spec_count :: "int list \<Rightarrow> int list \<Rightarrow> int \<Rightarrow> int \<Rightarrow> nat" where
  "spec_count y_true y_pred t p =
     card {i. i < length y_true \<and> y_true ! i = t \<and> y_pred ! i = p}"

definition spec_f1 :: "int list \<Rightarrow> int list \<Rightarrow> real" where
  "spec_f1 y_true y_pred =
     (let TP = real (spec_count y_true y_pred 1 1);
          FP = real (spec_count y_true y_pred 0 1);
          FN = real (spec_count y_true y_pred 1 0);
          P = (if TP + FP = 0 then 0 else TP / (TP + FP));
          R = (if TP + FN = 0 then 0 else TP / (TP + FN))
      in if P + R = 0 then 0 else 2 * P * R / (P + R))"

section \<open>The cross-validator of the specification\<close>

text \<open>
  One fold as the specification words it, for given train and test indices: train the
  model on the labels and samples at the train indices, predict the samples at the test
  indices, and score accuracy and F1 against the labels at the test indices.
\<close>

definition spec_fold_scores ::
  "('x, 'v, 'w) fit \<Rightarrow> ('x \<Rightarrow> 'w \<Rightarrow> fl \<Rightarrow> bool) \<Rightarrow> 'x list \<Rightarrow> int list \<Rightarrow> 'v params \<Rightarrow> fl \<Rightarrow>
   nat list \<Rightarrow> nat list \<Rightarrow> error + (fl \<times> fl)" where
  "spec_fold_scores model decide X y params threshold train test =
     (case model (map (\<lambda>n. y ! n) train) (map (\<lambda>n. X ! n) train) params of
        Inl e \<Rightarrow> Inl e
      | Inr (w, loss) \<Rightarrow>
          let y_pred = predict_logistic decide (map (\<lambda>n. X ! n) test) w threshold in
          (case compute_f1 (map (\<lambda>n. y ! n) test) (map label_of y_pred) of
             Inl e \<Rightarrow> Inl e
           | Inr f1 \<Rightarrow> Inr (mean_match y_pred (map (\<lambda>n. y ! n) test), Fin f1)))"

text \<open>The results of the folds in order: the first exception, or all the scores.\<close>

fun first_error :: "(error + 'a) list \<Rightarrow> error + 'a list" where
  "first_error [] = Inr []"
| "first_error (Inl e # rs) = Inl e"
| "first_error (Inr v # rs) =
     (case first_error rs of Inl e \<Rightarrow> Inl e | Inr vs \<Rightarrow> Inr (v # vs))"

section \<open>The selection rule of the specification\<close>

text \<open>
  The search as the specification words it, over the scores \<open>(accuracy, f1)\<close> of the grid
  points in the order of iteration: a candidate replaces the current best when its f1 is
  at least the best f1 and its accuracy is at least the best accuracy; the best starts
  at accuracy 0 and f1 0 with no point recorded. \<open>spec_run\<close> gives the final best scores
  and the position of the point that holds the record.
\<close>

definition replaces :: "fl \<times> fl \<Rightarrow> fl \<times> fl \<Rightarrow> bool" where
  "replaces cand best = (fl_ge (snd cand) (snd best) \<and> fl_ge (fst cand) (fst best))"

fun select_step :: "(fl \<times> fl) \<times> nat option \<Rightarrow> nat \<times> (fl \<times> fl) \<Rightarrow> (fl \<times> fl) \<times> nat option" where
  "select_step (best, who) (n, cand) = (if replaces cand best then (cand, Some n) else (best, who))"

definition spec_run :: "(fl \<times> fl) list \<Rightarrow> (fl \<times> fl) \<times> nat option" where
  "spec_run scores =
     foldl select_step ((Fin 0, Fin 0), None) (zip [0..<length scores] scores)"

text \<open>The grid in the order of iteration: \<open>gamma\<close> in the outer loop, \<open>lambda\<close> in the inner.\<close>

definition grid_order :: "'v list \<Rightarrow> 'v list \<Rightarrow> ('v \<times> 'v) list" where
  "grid_order lambdas gammas =
     concat (map (\<lambda>gamma. map (\<lambda>lambda. (lambda, gamma)) lambdas) gammas)"

text \<open>The point \<open>(lambda, gamma)\<close> and the scores \<open>(accuracy, f1)\<close> of a printed line.\<close>

definition point :: "'v \<times> 'v \<times> fl \<times> fl \<Rightarrow> 'v \<times> 'v" where
  "point e = (fst e, fst (snd e))"

definition scores_of :: "'v \<times> 'v \<times> fl \<times> fl \<Rightarrow> fl \<times> fl" where
  "scores_of e = snd (snd e)"

text \<open>The pair \<open>hyperparameter_tuning\<close> returns when the record is held at a position.\<close>

definition returned_pair :: "('v \<times> 'v \<times> fl \<times> fl) list \<Rightarrow> nat option \<Rightarrow> 'v option \<times> 'v option" where
  "returned_pair trace who =
     (case who of None \<Rightarrow> (None, None)
      | Some n \<Rightarrow> (Some (fst (point (trace ! n))), Some (snd (point (trace ! n)))))"

text \<open>
  The relation between the variables of the search and the lines printed so far: the
  best scores and the recorded pair are those \<open>spec_run\<close> gives on the printed scores.
\<close>

definition search_inv :: "('v, 'r) search \<Rightarrow> bool" where
  "search_inv st =
     ((best_accuracy st, best_f1_score st) = fst (spec_run (map scores_of (printed st))) \<and>
      (best_param_lambda st, best_param_gamma st) =
        returned_pair (printed st) (snd (spec_run (map scores_of (printed st)))))"

text \<open>
  The printed lines replayed: starting from a dictionary and a state of the generator,
  each line \<open>(lambda, gamma, accuracy, f1)\<close> is checked to carry the scores that the
  cross-validator \<open>cv\<close> returns on the dictionary with \<open>lambda_\<close> and \<open>gamma\<close> set to the
  line's own values, at the state the previous line left. The result is the last state
  of the generator, or \<open>None\<close> when a line does not carry those scores.
\<close>

fun replay ::
  "('v params \<Rightarrow> 'r \<Rightarrow> error + ((fl \<times> fl) \<times> 'r)) \<Rightarrow> 'v params \<Rightarrow> 'r \<Rightarrow>
   ('v \<times> 'v \<times> fl \<times> fl) list \<Rightarrow> 'r option" where
  "replay cv params r [] = Some r"
| "replay cv params r ((lambda, gamma, accuracy, f1) # rest) =
     (case cv (params(''lambda_'' \<mapsto> lambda, ''gamma'' \<mapsto> gamma)) r of
        Inl e \<Rightarrow> None
      | Inr (s, r') \<Rightarrow> if s = (accuracy, f1) then replay cv params r' rest else None)"

section \<open>Example inputs\<close>

text \<open>
  Five rows, three columns: the share of missing entries is 3/5 in the first column,
  2/5 in the second and 4/5 in the third.
\<close>

definition ex_matrix :: matrix where
  "ex_matrix = \<lparr>nrows = 5, columns =
     [[Fin 999, Fin 999, Fin 999, Fin 1, Fin 2],
      [Fin 999, Fin 77, Fin 3, Fin 1, Fin 2],
      [NaN, Fin 999999, Fin 7777, Fin 99, Fin 0]]\<rparr>"

text \<open>
  A correlation matrix for three columns in which only the first and the third are
  strongly (negatively) correlated. The correlations of the examples are given as the
  value \<open>corrcoef\<close> returns; they are not computed from the entries of \<open>ex_matrix\<close>.
\<close>

definition ex_corr :: "nat \<Rightarrow> nat \<Rightarrow> fl" where
  "ex_corr i j =
     (if i = j then Fin 1
      else if (i = 0 \<and> j = 2) \<or> (i = 2 \<and> j = 0) then Fin (- (99 / 100))
      else Fin (1 / 10))"

definition ex_corrcoef :: "matrix \<Rightarrow> corr_result" where
  "ex_corrcoef d = Corr2 (ncols d) ex_corr"

text \<open>
  A correlation matrix for three columns in which the first and the second, and the
  second and the third, are correlated above 0.95, the first and the third are not.
\<close>

definition ex_chain :: "nat \<Rightarrow> nat \<Rightarrow> fl" where
  "ex_chain i j =
     (if i = j then Fin 1
      else if (i = 0 \<and> j = 2) \<or> (i = 2 \<and> j = 0) then Fin (9 / 10)
      else Fin (96 / 100))"

definition ex_corrcoef_chain :: "matrix \<Rightarrow> corr_result" where
  "ex_corrcoef_chain d = Corr2 (ncols d) ex_chain"

text \<open>A test matrix with three columns, the first two equal.\<close>

definition ex_test :: matrix where
  "ex_test = \<lparr>nrows = 2, columns = [[Fin 1, Fin 2], [Fin 1, Fin 2], [Fin 5, Fin 7]]\<rparr>"

text \<open>A matrix with a single column, and what numpy's \<open>corrcoef\<close> returns for one variable.\<close>

definition ex_single :: matrix where
  "ex_single = \<lparr>nrows = 3, columns = [[Fin 1, Fin 2, Fin 3]]\<rparr>"

definition ex_corrcoef_single :: "matrix \<Rightarrow> corr_result" where
  "ex_corrcoef_single d = Corr0 (Fin 1)"

text \<open>
  Stubs for the cross-validator: a shuffle that leaves the indices in place, samples
  that are numbers, weights that are the list of the samples predicted positive, and a
  training function that returns the \<open>lambda_\<close> list followed by the \<open>gamma\<close> list.
\<close>

definition ex_shuffle :: "unit \<Rightarrow> nat \<Rightarrow> nat list \<times> unit" where
  "ex_shuffle r n = ([0..<n], r)"

definition ex_decide :: "nat \<Rightarrow> nat list \<Rightarrow> fl \<Rightarrow> bool" where
  "ex_decide x w threshold = (x \<in> set w)"

definition ex_model :: "(nat, nat list, nat list) fit" where
  "ex_model y_train X_train params =
     Inr ((case params ''lambda_'' of Some l \<Rightarrow> l | None \<Rightarrow> []) @
          (case params ''gamma'' of Some g \<Rightarrow> g | None \<Rightarrow> []), Fin 0)"

definition ex_params :: "nat list params" where
  "ex_params = [''max_iters'' \<mapsto> [7]]"

text \<open>
  A shuffle that reverses the indices, and a training function that memorises its
  training samples: with \<open>ex_decide\<close>, a sample is predicted positive when it was among
  them.
\<close>

definition ex_rev_shuffle :: "unit \<Rightarrow> nat \<Rightarrow> nat list \<times> unit" where
  "ex_rev_shuffle r n = (rev [0..<n], r)"

definition ex_memo_model :: "(nat, nat list, nat list) fit" where
  "ex_memo_model y_train X_train params = Inr (X_train, Fin 0)"

section \<open>Properties of the metric engine\<close>

lemma count_both_card:
  "length a = length b \<Longrightarrow>
   count_both a u b v = card {i. i < length b \<and> b ! i = v \<and> a ! i = u}"
proof -
  assume len: "length a = length b"
  have "count_both a u b v = card {i. i < length (zip a b) \<and> (\<lambda>(p, q). p = u \<and> q = v) (zip a b ! i)}"
    unfolding count_both_def by (rule length_filter_conv_card)
  also have "{i. i < length (zip a b) \<and> (\<lambda>(p, q). p = u \<and> q = v) (zip a b ! i)}
      = {i. i < length b \<and> b ! i = v \<and> a ! i = u}"
    using len by auto
  finally show ?thesis .
qed

lemma compute_f1_length_mismatch:
  "length y_true \<noteq> length y_pred \<Longrightarrow> compute_f1 y_true y_pred = Inl AssertionError"
  by (simp add: compute_f1_def)

lemma metrics_loop_zip_take:
  "metrics_loop (zip a b) acc =
   metrics_loop (zip (take (min (length a) (length b)) a) (take (min (length a) (length b)) b)) acc"
proof -
  have "zip (take (min (length a) (length b)) a) (take (min (length a) (length b)) b) = zip a b"
    by (simp add: take_zip [symmetric])
  then show ?thesis by simp
qed

lemma compute_f1_spec:
  "length y_true = length y_pred \<Longrightarrow> compute_f1 y_true y_pred = Inr (spec_f1 y_true y_pred)"
  by (simp add: compute_f1_def spec_f1_def spec_count_def count_both_card Let_def)

lemma compute_f1_zero_labels: "compute_f1 (replicate n 0) (replicate n 0) = Inr 0"
  by (simp add: compute_f1_def count_both_def zip_replicate)

text \<open>
  Claim C3. Every operation of the metric engine fails on sequences of different
  lengths. \<open>compute_f1\<close> does (\<open>compute_f1_length_mismatch\<close>); \<open>calculate_metrics\<close> does
  not: on two true labels and one prediction it counts the first pair and returns.
\<close>

theorem calculate_metrics_truncates:
  "calculate_metrics [1, 1] [1] = (1, 0, 0, 0) \<and> compute_f1 [1, 1] [1] = Inl AssertionError"
  by (simp add: calculate_metrics_def compute_f1_def)

text \<open>
  Claim C4. On label sequences of equal length \<open>compute_f1\<close> raises nothing and returns
  the score of the specification: precision and recall are 0 on a zero denominator, the
  score is 0 when their sum is 0, and \<open>2PR / (P + R)\<close> otherwise. All-zero labels give 0.
\<close>

theorem compute_f1_returns_score:
  "length y_true = length y_pred \<Longrightarrow>
   compute_f1 y_true y_pred = Inr (spec_f1 y_true y_pred) \<and>
   compute_f1 (replicate n 0) (replicate n 0) = Inr 0"
  using compute_f1_spec [of y_true y_pred] compute_f1_zero_labels [of n] by simp

theorem compute_f1_returns_score_witness:
  "length [1, 1, 0, 0 :: int] = length [1, 0, 0, 1 :: int] \<and>
   compute_f1 [1, 1, 0, 0] [1, 0, 0, 1] = Inr (1 / 2) \<and>
   spec_f1 [1, 1, 0, 0] [1, 0, 0, 1] = 1 / 2 \<and>
   compute_f1 [0, 0, 0] [0, 0, 0] = Inr 0"
proof -
  have len: "length [1, 1, 0, 0 :: int] = length [1, 0, 0, 1 :: int]" by simp
  have run: "compute_f1 [1, 1, 0, 0] [1, 0, 0, 1] = Inr (1 / 2)"
    by (simp add: compute_f1_def count_both_def)
  from compute_f1_returns_score [OF len, of 3] run show ?thesis
    by (simp add: numeral_3_eq_3)
qed

section \<open>Properties of the density filter\<close>

lemma count_missing:
  "count_nan col + (count_eq col 77 + count_eq col 99) + (count_eq col 777 + count_eq col 999)
     + (count_eq col 7777 + count_eq col 9999) + (count_eq col 777777 + count_eq col 999999)
   = length (filter is_missing col)"
proof (induction col)
  case Nil
  show ?case by (simp add: count_nan_def count_eq_def)
next
  case (Cons x xs)
  show ?case
  proof (cases x)
    case NaN
    have "is_missing NaN" by (simp add: is_missing_def)
    with Cons NaN show ?thesis by (simp add: count_nan_def count_eq_def)
  next
    case (Fin v)
    have h: "is_missing (Fin v) \<longleftrightarrow> v = 77 \<or> v = 99 \<or> v = 777 \<or> v = 999 \<or> v = 7777 \<or> v = 9999
        \<or> v = 777777 \<or> v = 999999"
      by (simp add: is_missing_def sentinels_def)
    from Cons Fin show ?thesis
      by (auto simp add: count_nan_def count_eq_def h)
  qed
qed

lemma column_marked_fraction:
  "column_marked x t = (\<lambda>j. fl_ge (missing_fraction x j) t)"
  unfolding column_marked_def missing_fraction_def Let_def
  by (simp only: count_missing)

lemma remove_loop_filter:
  "remove_loop x t js remove = remove @ filter (column_marked x t) js"
  by (induction js arbitrary: remove) simp_all

lemma columns_to_remove_filter:
  "columns_to_remove x t = filter (\<lambda>j. fl_ge (missing_fraction x j) t) [0..<ncols x]"
  by (simp add: columns_to_remove_def remove_loop_filter column_marked_fraction)

text \<open>
  Claim C7. \<open>columns_to_remove\<close> returns column \<open>j\<close> exactly when the share of its
  entries that are NaN or a sentinel code is at least \<open>t\<close> (a share equal to \<open>t\<close> is
  enough), and the returned indices are in ascending order, each once.
\<close>

theorem columns_to_remove_marks:
  "(j \<in> set (columns_to_remove x t) \<longleftrightarrow> j < ncols x \<and> fl_ge (missing_fraction x j) t) \<and>
   sorted (columns_to_remove x t) \<and> distinct (columns_to_remove x t)"
  by (auto simp add: columns_to_remove_filter sorted_wrt_filter)

theorem columns_to_remove_marks_witness:
  "columns_to_remove ex_matrix (Fin (6 / 10)) = [0, 2] \<and>
   missing_fraction ex_matrix 0 = Fin (6 / 10) \<and>
   missing_fraction ex_matrix 1 = Fin (4 / 10) \<and>
   fl_ge (missing_fraction ex_matrix 0) (Fin (6 / 10)) \<and>
   \<not> fl_ge (missing_fraction ex_matrix 1) (Fin (6 / 10)) \<and>
   sorted (columns_to_remove ex_matrix (Fin (6 / 10)))"
proof -
  have run: "columns_to_remove ex_matrix (Fin (6 / 10)) = [0, 2]"
    by (simp add: columns_to_remove_def ncols_def ex_matrix_def column_marked_def
        count_nan_def count_eq_def np_true_divide_def upt_rec)
  have fr: "missing_fraction ex_matrix 0 = Fin (6 / 10) \<and>
      missing_fraction ex_matrix 1 = Fin (4 / 10)"
    by (simp add: ex_matrix_def missing_fraction_def is_missing_def sentinels_def
        np_true_divide_def)
  have nc: "ncols ex_matrix = 3" by (simp add: ncols_def ex_matrix_def)
  from columns_to_remove_marks [of 0 ex_matrix "Fin (6 / 10)"]
    columns_to_remove_marks [of 1 ex_matrix "Fin (6 / 10)"] run fr nc
  show ?thesis by simp
qed

section \<open>Properties of the correlation filter\<close>

lemma mark_loop_length: "length (mark_loop c th i js dc) = length dc"
  by (induction js arbitrary: dc) simp_all

lemma mark_loop_nth:
  "j < length dc \<Longrightarrow>
   mark_loop c th i js dc ! j = (dc ! j \<or> (j \<in> set js \<and> fl_gt (fl_abs (corr_entry c i j)) th))"
proof (induction js arbitrary: dc)
  case Nil
  then show ?case by simp
next
  case (Cons a js)
  then show ?case
    by (cases "a < length dc") (auto simp add: nth_list_update)
qed

lemma pair_loop_length: "length (pair_loop c th n is dc) = length dc"
  by (induction "is" arbitrary: dc) (simp_all add: mark_loop_length)

lemma pair_loop_nth:
  "j < length dc \<Longrightarrow>
   pair_loop c th n is dc ! j =
     (dc ! j \<or> (\<exists>i \<in> set is. i < j \<and> j < n \<and> fl_gt (fl_abs (corr_entry c i j)) th))"
proof (induction "is" arbitrary: dc)
  case Nil
  then show ?case by simp
next
  case (Cons a "is")
  then show ?case
    by (auto simp add: mark_loop_length mark_loop_nth)
qed

lemma drop_mask_nth:
  "j < n \<Longrightarrow>
   pair_loop c th n [0..<n] (replicate n False) ! j =
     (\<exists>i<j. fl_gt (fl_abs (corr_entry c i j)) th)"
  by (auto simp add: pair_loop_nth)

lemma zip_as_map:
  "length m = length cs \<Longrightarrow> zip m cs = map (\<lambda>j. (m ! j, cs ! j)) [0..<length cs]"
  by (rule nth_equalityI) simp_all

lemma kept_columns:
  "length m = length cs \<Longrightarrow>
   map snd (filter (\<lambda>(d, c). \<not> d) (zip m cs)) =
   map (\<lambda>j. cs ! j) (filter (\<lambda>j. \<not> m ! j) [0..<length cs])"
  by (simp add: zip_as_map filter_map comp_def)

lemma select_kept_Inr:
  "select_kept x m = Inr r \<longleftrightarrow>
   length m = ncols x \<and>
   r = x\<lparr>columns := map (\<lambda>j. columns x ! j) (filter (\<lambda>j. \<not> m ! j) [0..<ncols x])\<rparr>"
  by (auto simp add: select_kept_def ncols_def kept_columns)

lemma drop_highly_correlated_run:
  assumes "corrcoef data = Corr2 (ncols data) c"
  shows "drop_highly_correlated_features corrcoef data threshold =
     Inr (data\<lparr>columns := map (\<lambda>j. columns data ! j)
            (filter (\<lambda>j. \<not> pair_loop (Corr2 (ncols data) c) threshold (ncols data)
                [0..<ncols data] (replicate (ncols data) False) ! j) [0..<ncols data])\<rparr>,
          pair_loop (Corr2 (ncols data) c) threshold (ncols data)
            [0..<ncols data] (replicate (ncols data) False))"
proof -
  let ?m = "pair_loop (Corr2 (ncols data) c) threshold (ncols data) [0..<ncols data]
              (replicate (ncols data) False)"
  have len: "length ?m = ncols data" by (simp add: pair_loop_length)
  have sel: "select_kept data ?m =
      Inr (data\<lparr>columns := map (\<lambda>j. columns data ! j) (filter (\<lambda>j. \<not> ?m ! j) [0..<ncols data])\<rparr>)"
    using len by (simp add: select_kept_Inr)
  show ?thesis
    using assms sel by (simp add: drop_highly_correlated_features_def Let_def)
qed

text \<open>
  With at least two columns, where \<open>corrcoef\<close> returns a matrix, the first column is
  never marked and is kept.
\<close>

lemma first_column_kept:
  assumes "corrcoef data = Corr2 (ncols data) c" and "0 < ncols data"
  shows "\<exists>kept drop_cols.
     drop_highly_correlated_features corrcoef data threshold = Inr (kept, drop_cols) \<and>
     \<not> drop_cols ! 0 \<and> 0 < ncols kept"
proof -
  let ?m = "pair_loop (Corr2 (ncols data) c) threshold (ncols data) [0..<ncols data]
              (replicate (ncols data) False)"
  have m0: "\<not> ?m ! 0" using assms(2) by (simp add: drop_mask_nth)
  with assms(2) have "0 \<in> set (filter (\<lambda>j. \<not> ?m ! j) [0..<ncols data])" by simp
  then have "filter (\<lambda>j. \<not> ?m ! j) [0..<ncols data] \<noteq> []" by (metis empty_iff empty_set)
  with m0 drop_highly_correlated_run [where corrcoef=corrcoef and data=data and c=c and threshold=threshold, OF assms(1)] show ?thesis
    by (simp add: ncols_def)
qed

text \<open>
  Against claim C5 as stated: the lower-indexed column of a correlated pair is not
  always kept. In the chain of the example inputs the second and the third column are
  correlated, and both are dropped, the second because of the first.
\<close>

theorem lower_column_of_pair_dropped:
  "fl_gt (fl_abs (ex_chain 1 2)) (Fin (95 / 100)) \<and>
   drop_highly_correlated_features ex_corrcoef_chain ex_matrix (Fin (95 / 100)) =
     Inr (ex_matrix\<lparr>columns := [columns ex_matrix ! 0]\<rparr>, [False, True, True])"
proof -
  have nc: "ncols ex_matrix = 3" by (simp add: ncols_def ex_matrix_def)
  have gt: "fl_gt (fl_abs (ex_chain 1 2)) (Fin (95 / 100))" by (simp add: ex_chain_def)
  have loop: "pair_loop (Corr2 3 ex_chain) (Fin (95 / 100)) 3 [0..<3] (replicate 3 False) =
      [False, True, True]"
    by (simp add: upt_rec ex_chain_def numeral_3_eq_3)
  have sel: "select_kept ex_matrix [False, True, True] =
      Inr (ex_matrix\<lparr>columns := [columns ex_matrix ! 0]\<rparr>)"
    by (simp add: select_kept_def ncols_def ex_matrix_def)
  have "drop_highly_correlated_features ex_corrcoef_chain ex_matrix (Fin (95 / 100)) =
      Inr (ex_matrix\<lparr>columns := [columns ex_matrix ! 0]\<rparr>, [False, True, True])"
    using loop sel
    by (simp add: drop_highly_correlated_features_def ex_corrcoef_chain_def nc Let_def)
  with gt show ?thesis by simp
qed

text \<open>
  Claim C5, as amended. When \<open>corrcoef\<close> returns the correlation matrix \<open>c\<close> of the
  columns, \<open>drop_highly_correlated_features\<close> returns a mask as long as the matrix has
  columns, which marks column \<open>j\<close> exactly when \<open>|c i j| > threshold\<close> for some \<open>i < j\<close>,
  together with the matrix of the unmarked columns, in their order. So the
  higher-indexed column of a correlated pair is always dropped; the lower-indexed one
  is kept unless it is correlated with a column before it.
\<close>

theorem drop_highly_correlated_features_marks:
  assumes "corrcoef data = Corr2 (ncols data) c"
  shows "\<exists>kept drop_cols.
     drop_highly_correlated_features corrcoef data threshold = Inr (kept, drop_cols) \<and>
     length drop_cols = ncols data \<and>
     (\<forall>j<ncols data. drop_cols ! j \<longleftrightarrow> (\<exists>i<j. fl_gt (fl_abs (c i j)) threshold)) \<and>
     (\<forall>i j. i < j \<and> j < ncols data \<and> fl_gt (fl_abs (c i j)) threshold \<longrightarrow> drop_cols ! j) \<and>
     nrows kept = nrows data \<and>
     columns kept =
       map (\<lambda>j. columns data ! j) (filter (\<lambda>j. \<not> drop_cols ! j) [0..<ncols data])"
proof -
  let ?m = "pair_loop (Corr2 (ncols data) c) threshold (ncols data) [0..<ncols data]
              (replicate (ncols data) False)"
  have len: "length ?m = ncols data" by (simp add: pair_loop_length)
  have marks: "\<forall>j<ncols data. ?m ! j \<longleftrightarrow> (\<exists>i<j. fl_gt (fl_abs (c i j)) threshold)"
    by (simp add: drop_mask_nth)
  from marks have higher:
    "\<forall>i j. i < j \<and> j < ncols data \<and> fl_gt (fl_abs (c i j)) threshold \<longrightarrow> ?m ! j"
    by blast
  from drop_highly_correlated_run
    [where corrcoef = corrcoef and data = data and c = c and threshold = threshold, OF assms]
    len marks higher
  show ?thesis by simp
qed

theorem drop_highly_correlated_features_marks_witness:
  "ex_corrcoef ex_matrix = Corr2 (ncols ex_matrix) ex_corr \<and>
   (\<exists>kept. drop_highly_correlated_features ex_corrcoef ex_matrix (Fin (95 / 100)) =
      Inr (kept, [False, False, True]) \<and> ncols kept = 2) \<and>
   fl_gt (fl_abs (ex_corr 0 2)) (Fin (95 / 100))"
proof -
  have h: "ex_corrcoef ex_matrix = Corr2 (ncols ex_matrix) ex_corr"
    by (simp add: ex_corrcoef_def)
  have nc: "ncols ex_matrix = 3" by (simp add: ncols_def ex_matrix_def)
  have gt: "fl_gt (fl_abs (ex_corr 0 2)) (Fin (95 / 100))"
    by (simp add: ex_corr_def)
  from drop_highly_correlated_features_marks
    [where corrcoef = ex_corrcoef and data = ex_matrix and c = ex_corr
       and threshold = "Fin (95 / 100)", OF h]
  obtain kept dc where
    run: "drop_highly_correlated_features ex_corrcoef ex_matrix (Fin (95 / 100)) = Inr (kept, dc)"
    and len: "length dc = ncols ex_matrix"
    and marks: "\<forall>j<ncols ex_matrix. dc ! j \<longleftrightarrow> (\<exists>i<j. fl_gt (fl_abs (ex_corr i j)) (Fin (95 / 100)))"
    and cols: "columns kept =
       map (\<lambda>j. columns ex_matrix ! j) (filter (\<lambda>j. \<not> dc ! j) [0..<ncols ex_matrix])"
    by blast
  have d0: "dc ! 0 = False" using marks nc by simp
  have d1: "dc ! 1 = False"
    using marks nc by (simp add: ex_corr_def)
  have "\<exists>i<2. fl_gt (fl_abs (ex_corr i 2)) (Fin (95 / 100))"
    using gt by (intro exI [of _ 0]) simp
  then have d2: "dc ! 2 = True" using marks nc by simp
  have dc: "dc = [False, False, True]"
  proof (rule nth_equalityI)
    show "length dc = length [False, False, True]" using len nc by simp
  next
    fix i assume "i < length dc"
    then have "i = 0 \<or> i = 1 \<or> i = 2" using len nc by auto
    then show "dc ! i = [False, False, True] ! i" using d0 d1 d2 by auto
  qed
  have "ncols kept = 2"
    using cols by (simp add: ncols_def dc nc [unfolded ncols_def] upt_rec)
  with run dc h gt show ?thesis by simp
qed

text \<open>
  Claim C6. The mask returned for a training matrix, applied by
  \<open>drop_test_correlated_features\<close> to a test matrix with as many columns, gives a matrix
  with as many columns as the reduced training matrix: the columns of the test matrix
  at the unmarked positions. The function receives the test matrix and the mask only,
  no correlation is computed on the test data.
\<close>

theorem mask_reuse:
  assumes "drop_highly_correlated_features corrcoef X_train threshold = Inr (reduced, drop_cols)"
    and "ncols X_test = ncols X_train"
  shows "\<exists>r. drop_test_correlated_features X_test drop_cols = Inr r \<and>
     ncols r = ncols reduced \<and>
     nrows r = nrows X_test \<and>
     columns r =
       map (\<lambda>j. columns X_test ! j) (filter (\<lambda>j. \<not> drop_cols ! j) [0..<ncols X_test])"
proof -
  from assms(1) have "select_kept X_train drop_cols = Inr reduced"
    by (auto simp add: drop_highly_correlated_features_def Let_def split: sum.splits)
  then have len: "length drop_cols = ncols X_train"
    and red: "ncols reduced = length (filter (\<lambda>j. \<not> drop_cols ! j) [0..<ncols X_train])"
    by (simp_all add: select_kept_Inr ncols_def)
  from len assms(2) red show ?thesis
    by (simp add: drop_test_correlated_features_def select_kept_Inr ncols_def)
qed

theorem mask_reuse_witness:
  "drop_highly_correlated_features ex_corrcoef ex_matrix (Fin (95 / 100)) =
     Inr (ex_matrix\<lparr>columns := [columns ex_matrix ! 0, columns ex_matrix ! 1]\<rparr>,
          [False, False, True]) \<and>
   ncols ex_test = ncols ex_matrix \<and>
   (\<exists>r. drop_test_correlated_features ex_test [False, False, True] = Inr r \<and>
      ncols r = 2 \<and> columns r = [[Fin 1, Fin 2], [Fin 1, Fin 2]])"
proof -
  have nc: "ncols ex_matrix = 3" by (simp add: ncols_def ex_matrix_def)
  have loop: "pair_loop (Corr2 3 ex_corr) (Fin (95 / 100)) 3 [0..<3] (replicate 3 False) =
      [False, False, True]"
    by (simp add: upt_rec ex_corr_def numeral_3_eq_3)
  have sel: "select_kept ex_matrix [False, False, True] =
      Inr (ex_matrix\<lparr>columns := [columns ex_matrix ! 0, columns ex_matrix ! 1]\<rparr>)"
    by (simp add: select_kept_def ncols_def ex_matrix_def)
  have run: "drop_highly_correlated_features ex_corrcoef ex_matrix (Fin (95 / 100)) =
      Inr (ex_matrix\<lparr>columns := [columns ex_matrix ! 0, columns ex_matrix ! 1]\<rparr>,
           [False, False, True])"
    using loop sel
    by (simp add: drop_highly_correlated_features_def ex_corrcoef_def nc Let_def)
  have eq: "ncols ex_test = ncols ex_matrix"
    by (simp add: ncols_def ex_test_def ex_matrix_def)
  have nt: "ncols ex_test = 3" by (simp add: ncols_def ex_test_def)
  from mask_reuse [OF run eq] obtain r where
    r1: "drop_test_correlated_features ex_test [False, False, True] = Inr r"
    and r2: "ncols r = ncols (ex_matrix\<lparr>columns := [columns ex_matrix ! 0, columns ex_matrix ! 1]\<rparr>)"
    and r3: "columns r = map (\<lambda>j. columns ex_test ! j)
         (filter (\<lambda>j. \<not> [False, False, True] ! j) [0..<ncols ex_test])"
    by blast
  from r2 have r2': "ncols r = 2" by (simp add: ncols_def)
  have kept: "filter (\<lambda>j. \<not> [False, False, True] ! j) [0..<3] = [0, 1]"
    by (simp add: upt_rec)
  have cols: "columns ex_test ! 0 = [Fin 1, Fin 2] \<and> columns ex_test ! 1 = [Fin 1, Fin 2]"
    by (simp add: ex_test_def)
  from r3 have r3': "columns r = [[Fin 1, Fin 2], [Fin 1, Fin 2]]"
    by (simp only: nt kept list.map cols)
  from run eq r1 r2' r3' show ?thesis by blast
qed

text \<open>
  Claim C9. For every matrix with at least one column the mask is false at column 0
  and a column is kept. For a single column \<open>corrcoef\<close> returns a zero-dimensional array,
  reading \<open>shape[0]\<close> raises, and the function returns neither a mask nor a matrix. (With
  two or more columns the claim holds: \<open>first_column_kept\<close>.)
\<close>

theorem single_column_raises:
  "ncols ex_single = 1 \<and>
   drop_highly_correlated_features ex_corrcoef_single ex_single (Fin (95 / 100)) = Inl IndexError"
  by (simp add: drop_highly_correlated_features_def ex_corrcoef_single_def ncols_def
      ex_single_def)

section \<open>Properties of the fold partitioner\<close>

lemma fold_size_nat: "nat (int N div int k) = N div k"
  by (simp add: zdiv_int [symmetric])

lemma slice_map_nth:
  "lo \<le> hi \<Longrightarrow> hi \<le> length xs \<Longrightarrow> slice xs lo hi = map (\<lambda>n. xs ! n) [lo..<hi]"
  unfolding slice_def by (rule nth_equalityI) simp_all

lemma slice_length: "hi \<le> length xs \<Longrightarrow> length (slice xs lo hi) = hi - lo"
  unfolding slice_def by simp

lemma slice_subset_take: "set (slice xs lo hi) \<subseteq> set (take hi xs)"
proof (cases "lo \<le> hi")
  case True
  then have "slice xs lo hi = drop lo (take hi xs)"
    unfolding slice_def by (simp add: take_drop)
  then show ?thesis by (simp add: set_drop_subset)
next
  case False
  then show ?thesis unfolding slice_def by simp
qed

lemma slice_subset_drop: "set (slice xs lo hi) \<subseteq> set (drop lo xs)"
  unfolding slice_def by (rule set_take_subset)

lemma slice_distinct: "distinct xs \<Longrightarrow> distinct (slice xs lo hi)"
  unfolding slice_def by simp

lemma slices_disjoint:
  assumes "distinct xs" and "hi \<le> lo'"
  shows "set (slice xs lo hi) \<inter> set (slice xs lo' hi') = {}"
proof -
  have "set (take hi xs) \<inter> set (drop lo' xs) = {}"
    using assms by (rule set_take_disj_set_drop_if_distinct)
  with slice_subset_take [of xs lo hi] slice_subset_drop [of xs lo' hi'] show ?thesis
    by blast
qed

lemma setdiff1d_set: "set (setdiff1d ar1 ar2) = set ar1 - set ar2"
  by (auto simp add: setdiff1d_def)

lemma setdiff1d_sorted: "sorted (setdiff1d ar1 ar2) \<and> distinct (setdiff1d ar1 ar2)"
  by (simp add: setdiff1d_def sorted_wrt_filter)

lemma setdiff1d_sorted_list:
  "setdiff1d ar1 ar2 = sorted_list_of_set (set ar1 - set ar2)"
proof (rule sorted_distinct_set_unique)
  show "sorted (setdiff1d ar1 ar2)" "distinct (setdiff1d ar1 ar2)"
    using setdiff1d_sorted by blast+
  show "sorted (sorted_list_of_set (set ar1 - set ar2))"
    "distinct (sorted_list_of_set (set ar1 - set ar2))" by simp_all
  show "set (setdiff1d ar1 ar2) = set (sorted_list_of_set (set ar1 - set ar2))"
    by (simp add: setdiff1d_set)
qed

lemma perm_facts:
  assumes "sort shuffled = [0..<N]"
  shows "distinct shuffled" "set shuffled = {0..<N}" "length shuffled = N"
proof -
  have "distinct (sort shuffled)" using assms by simp
  then show "distinct shuffled" by simp
  have "set (sort shuffled) = {0..<N}" using assms by simp
  then show "set shuffled = {0..<N}" by simp
  have "length (sort shuffled) = N" using assms by simp
  then show "length shuffled = N" by simp
qed

lemma fold_order: "i < j \<Longrightarrow> (i + 1) * (fs::nat) \<le> j * fs"
  using mult_le_mono1 [of "i + 1" j fs] by simp

lemma fold_bound: "(i::nat) < k \<Longrightarrow> (i + 1) * (N div k) \<le> N"
proof -
  assume "(i::nat) < k"
  then have "(i + 1) * (N div k) \<le> k * (N div k)" by (rule fold_order)
  also have "\<dots> \<le> N" by simp
  finally show ?thesis .
qed

lemma test_indices_facts:
  assumes "sort shuffled = [0..<N]" and "i < k"
  shows "test_indices shuffled (N div k) i =
      map (\<lambda>n. shuffled ! n) [i * (N div k)..<(i + 1) * (N div k)]"
    and "length (test_indices shuffled (N div k) i) = N div k"
    and "distinct (test_indices shuffled (N div k) i)"
    and "set (test_indices shuffled (N div k) i) \<subseteq> set (take (k * (N div k)) shuffled)"
proof -
  have len: "length shuffled = N" and d: "distinct shuffled"
    using perm_facts [OF assms(1)] by simp_all
  have hi: "(i + 1) * (N div k) \<le> length shuffled"
    using fold_bound [OF assms(2), of N] len by simp
  show "test_indices shuffled (N div k) i =
      map (\<lambda>n. shuffled ! n) [i * (N div k)..<(i + 1) * (N div k)]"
    unfolding test_indices_def using hi by (intro slice_map_nth) simp_all
  show "length (test_indices shuffled (N div k) i) = N div k"
    unfolding test_indices_def using hi by (simp add: slice_length)
  show "distinct (test_indices shuffled (N div k) i)"
    unfolding test_indices_def using d by (rule slice_distinct)
  have "(i + 1) * (N div k) \<le> k * (N div k)" using assms(2) by (rule fold_order)
  then have "set (take ((i + 1) * (N div k)) shuffled) \<subseteq> set (take (k * (N div k)) shuffled)"
    by (rule set_take_subset_set_take)
  with slice_subset_take [of shuffled "i * (N div k)" "(i + 1) * (N div k)"]
  show "set (test_indices shuffled (N div k) i) \<subseteq> set (take (k * (N div k)) shuffled)"
    unfolding test_indices_def by blast
qed

lemma test_indices_disjoint:
  assumes "sort shuffled = [0..<N]" and "i \<noteq> j"
  shows "set (test_indices shuffled fs i) \<inter> set (test_indices shuffled fs j) = {}"
proof -
  have d: "distinct shuffled" using perm_facts [OF assms(1)] by simp
  consider "i < j" | "j < i" using assms(2) by linarith
  then show ?thesis
  proof cases
    case 1
    then have "(i + 1) * fs \<le> j * fs" by (rule fold_order)
    with d show ?thesis unfolding test_indices_def by (rule slices_disjoint)
  next
    case 2
    then have "(j + 1) * fs \<le> i * fs" by (rule fold_order)
    with d have "set (test_indices shuffled fs j) \<inter> set (test_indices shuffled fs i) = {}"
      unfolding test_indices_def by (rule slices_disjoint)
    then show ?thesis by blast
  qed
qed

lemma train_indices_complement:
  assumes "sort shuffled = [0..<N]"
  shows "train_indices shuffled fs i =
      sorted_list_of_set ({0..<N} - set (test_indices shuffled fs i))"
  unfolding train_indices_def using perm_facts(2) [OF assms]
  by (simp add: setdiff1d_sorted_list)

lemma test_union_card:
  assumes "sort shuffled = [0..<N]"
  shows "card (\<Union>i<k. set (test_indices shuffled (N div k) i)) = k * (N div k)"
proof -
  have "card (\<Union>i\<in>{..<k}. set (test_indices shuffled (N div k) i)) =
      (\<Sum>i\<in>{..<k}. card (set (test_indices shuffled (N div k) i)))"
    by (rule card_UN_disjoint) (auto simp add: test_indices_disjoint [OF assms])
  also have "\<dots> = (\<Sum>i\<in>{..<k}. N div k)"
    by (rule sum.cong)
      (simp_all add: distinct_card test_indices_facts(2,3) [OF assms])
  also have "\<dots> = k * (N div k)" by simp
  finally show ?thesis .
qed

lemma remainder_in_train:
  assumes "sort shuffled = [0..<N]" and "i < k"
    and "x \<in> set (drop (N - N mod k) shuffled)"
  shows "x \<notin> set (test_indices shuffled (N div k) i)"
    and "x \<in> set (train_indices shuffled (N div k) i)"
proof -
  have d: "distinct shuffled" and s: "set shuffled = {0..<N}"
    using perm_facts [OF assms(1)] by simp_all
  have eq: "N - N mod k = k * (N div k)"
    by (simp add: minus_mod_eq_mult_div)
  have "set (take (k * (N div k)) shuffled) \<inter> set (drop (k * (N div k)) shuffled) = {}"
    using d by (intro set_take_disj_set_drop_if_distinct) simp_all
  with test_indices_facts(4) [OF assms(1,2)] assms(3) eq
  show notin: "x \<notin> set (test_indices shuffled (N div k) i)" by auto
  have "x \<in> set shuffled" using assms(3) by (rule in_set_dropD)
  with notin s show "x \<in> set (train_indices shuffled (N div k) i)"
    by (simp add: train_indices_complement [OF assms(1)])
qed

lemma take_rows_ok:
  "\<forall>i \<in> set idx. i < length a \<Longrightarrow> take_rows a idx = Inr (map (\<lambda>i. a ! i) idx)"
  by (simp add: take_rows_def list_all_iff)

lemma fold_indices_in_range:
  assumes "sort indices = [0..<N]"
  shows "\<forall>n \<in> set (test_indices indices fs i). n < N"
    and "\<forall>n \<in> set (train_indices indices fs i). n < N"
proof -
  have s: "set indices = {0..<N}" using perm_facts(2) [OF assms] .
  have "set (test_indices indices fs i) \<subseteq> set indices"
    unfolding test_indices_def slice_def by (meson in_set_dropD in_set_takeD subsetI)
  with s show "\<forall>n \<in> set (test_indices indices fs i). n < N" by auto
  have "set (train_indices indices fs i) \<subseteq> set indices"
    unfolding train_indices_def by (auto simp add: setdiff1d_set)
  with s show "\<forall>n \<in> set (train_indices indices fs i). n < N" by auto
qed

lemma fold_scores_spec:
  assumes "sort indices = [0..<length X]" and "length y = length X"
  shows "fold_scores model decide X y params threshold indices fs i =
     spec_fold_scores model decide X y params threshold
       (train_indices indices fs i) (test_indices indices fs i)"
proof -
  note r = fold_indices_in_range [OF assms(1), of fs i]
  have x1: "take_rows X (train_indices indices fs i) =
      Inr (map (\<lambda>n. X ! n) (train_indices indices fs i))"
    using r(2) by (intro take_rows_ok) simp
  have x2: "take_rows X (test_indices indices fs i) =
      Inr (map (\<lambda>n. X ! n) (test_indices indices fs i))"
    using r(1) by (intro take_rows_ok) simp
  have y1: "take_rows y (train_indices indices fs i) =
      Inr (map (\<lambda>n. y ! n) (train_indices indices fs i))"
    using r(2) assms(2) by (intro take_rows_ok) simp
  have y2: "take_rows y (test_indices indices fs i) =
      Inr (map (\<lambda>n. y ! n) (test_indices indices fs i))"
    using r(1) assms(2) by (intro take_rows_ok) simp
  show ?thesis
    unfolding fold_scores_def spec_fold_scores_def Let_def x1 x2 y1 y2 by simp
qed

lemma fold_loop_first_error:
  "fold_loop model decide X y params threshold indices fs folds accs f1s =
   (case first_error
           (map (\<lambda>i. fold_scores model decide X y params threshold indices fs i) folds) of
      Inl e \<Rightarrow> Inl e
    | Inr scs \<Rightarrow> Inr (accs @ map fst scs, f1s @ map snd scs))"
proof (induction folds arbitrary: accs f1s)
  case Nil
  show ?case by simp
next
  case (Cons i rest)
  show ?case
  proof (cases "fold_scores model decide X y params threshold indices fs i")
    case (Inl e)
    then show ?thesis by simp
  next
    case (Inr sc)
    obtain a f where sc: "sc = (a, f)" by (cases sc)
    show ?thesis
      by (simp add: Inr sc Cons.IH split: sum.splits)
  qed
qed

lemma k_fold_spec:
  assumes "shuffle gen (length X) = (shuffled, gen')"
    and "sort shuffled = [0..<length X]" and "1 \<le> k" and "length y = length X"
  shows "k_fold_cross_validation shuffle decide X y model (int k) params threshold gen =
     (case first_error
             (map (\<lambda>i. spec_fold_scores model decide X y params threshold
                     (train_indices shuffled (length X div k) i)
                     (test_indices shuffled (length X div k) i)) [0..<k]) of
        Inl e \<Rightarrow> Inl e
      | Inr scs \<Rightarrow> Inr ((np_mean (map fst scs), np_mean (map snd scs)), gen'))"
proof -
  have k0: "int k \<noteq> 0" using assms(3) by simp
  have fs: "nat (int (length X) div int k) = length X div k" by (rule fold_size_nat)
  have m: "map (\<lambda>i. fold_scores model decide X y params threshold shuffled (length X div k) i)
        [0..<k] =
      map (\<lambda>i. spec_fold_scores model decide X y params threshold
                     (train_indices shuffled (length X div k) i)
                     (test_indices shuffled (length X div k) i)) [0..<k]"
    by (simp add: fold_scores_spec [OF assms(2,4)])
  show ?thesis
    unfolding k_fold_cross_validation_def Let_def assms(1) prod.case fs nat_int
      fold_loop_first_error m
    using k0 by (simp split: sum.splits)
qed

text \<open>
  Claim C2. \<open>k_fold_cross_validation\<close> on \<open>N\<close> samples with \<open>1 \<le> k \<le> N\<close> folds, where
  the shuffle returns a permutation of \<open>0, ..., N - 1\<close>: it is the cross-validator of
  the specification, each fold \<open>i < k\<close> trained on the rows at \<open>train_indices\<close> and tested
  on the rows at \<open>test_indices\<close> for \<open>fold_size = N div k\<close>. The test indices of fold \<open>i\<close>
  are the shuffled indices at positions \<open>i * fold_size\<close> up to \<open>(i + 1) * fold_size\<close>, the
  train indices are the sorted complement in \<open>{0, ..., N - 1}\<close>, train and test of a
  fold are disjoint, the test folds are pairwise disjoint, their union has
  \<open>k * (N div k)\<close> elements, and the last \<open>N mod k\<close> shuffled indices are in no test fold
  and in every train set.
\<close>

theorem fold_partition:
  assumes "shuffle gen (length X) = (shuffled, gen')" and "sort shuffled = [0..<N]"
    and "length X = N" and "length y = N" and "1 \<le> k" and "k \<le> N"
  shows "k_fold_cross_validation shuffle decide X y model (int k) params threshold gen =
           (case first_error
                   (map (\<lambda>i. spec_fold_scores model decide X y params threshold
                           (train_indices shuffled (N div k) i)
                           (test_indices shuffled (N div k) i)) [0..<k]) of
              Inl e \<Rightarrow> Inl e
            | Inr scs \<Rightarrow> Inr ((np_mean (map fst scs), np_mean (map snd scs)), gen')) \<and>
         (\<forall>i<k. test_indices shuffled (N div k) i =
            map (\<lambda>n. shuffled ! n) [i * (N div k)..<(i + 1) * (N div k)] \<and>
          train_indices shuffled (N div k) i =
            sorted_list_of_set ({0..<N} - set (test_indices shuffled (N div k) i)) \<and>
          set (train_indices shuffled (N div k) i) \<inter>
            set (test_indices shuffled (N div k) i) = {}) \<and>
         (\<forall>i<k. \<forall>j<k. i \<noteq> j \<longrightarrow>
            set (test_indices shuffled (N div k) i) \<inter>
            set (test_indices shuffled (N div k) j) = {}) \<and>
         card (\<Union>i<k. set (test_indices shuffled (N div k) i)) = k * (N div k) \<and>
         length (drop (N - N mod k) shuffled) = N mod k \<and>
         (\<forall>x \<in> set (drop (N - N mod k) shuffled). \<forall>i<k.
            x \<notin> set (test_indices shuffled (N div k) i) \<and>
            x \<in> set (train_indices shuffled (N div k) i))"
proof -
  have p: "sort shuffled = [0..<length X]" using assms(2,3) by simp
  have ly: "length y = length X" using assms(3,4) by simp
  have len: "length shuffled = N" using perm_facts [OF assms(2)] by simp
  have run: "k_fold_cross_validation shuffle decide X y model (int k) params threshold gen =
           (case first_error
                   (map (\<lambda>i. spec_fold_scores model decide X y params threshold
                           (train_indices shuffled (N div k) i)
                           (test_indices shuffled (N div k) i)) [0..<k]) of
              Inl e \<Rightarrow> Inl e
            | Inr scs \<Rightarrow> Inr ((np_mean (map fst scs), np_mean (map snd scs)), gen'))"
    using k_fold_spec [where shuffle = shuffle and gen = gen and X = X and y = y
        and shuffled = shuffled and gen' = gen' and k = k, OF assms(1) p assms(5) ly]
      assms(3) by simp
  have a: "\<forall>i<k. test_indices shuffled (N div k) i =
            map (\<lambda>n. shuffled ! n) [i * (N div k)..<(i + 1) * (N div k)]"
    using test_indices_facts(1) [OF assms(2)] by blast
  have b: "\<forall>i<k. train_indices shuffled (N div k) i =
            sorted_list_of_set ({0..<N} - set (test_indices shuffled (N div k) i))"
    using train_indices_complement [OF assms(2)] by blast
  have c: "\<forall>i<k. set (train_indices shuffled (N div k) i) \<inter>
            set (test_indices shuffled (N div k) i) = {}"
    by (auto simp add: train_indices_complement [OF assms(2)])
  have d: "\<forall>i<k. \<forall>j<k. i \<noteq> j \<longrightarrow>
            set (test_indices shuffled (N div k) i) \<inter>
            set (test_indices shuffled (N div k) j) = {}"
    using test_indices_disjoint [OF assms(2)] by blast
  have e: "length (drop (N - N mod k) shuffled) = N mod k"
    using len by simp
  have f: "\<forall>x \<in> set (drop (N - N mod k) shuffled). \<forall>i<k.
            x \<notin> set (test_indices shuffled (N div k) i) \<and>
            x \<in> set (train_indices shuffled (N div k) i)"
    using remainder_in_train [OF assms(2)] by blast
  from run a b c d test_union_card [OF assms(2), of k] e f
  show ?thesis by blast
qed

theorem fold_partition_witness:
  "ex_rev_shuffle () (length [0, 1, 2, 3, 4 :: nat]) = ([4, 3, 2, 1, 0], ()) \<and>
   sort [4, 3, 2, 1, 0] = [0..<5] \<and>
   length [0, 1, 2, 3, 4 :: nat] = 5 \<and> length [1, 0, 1, 0, 1 :: int] = 5 \<and>
   (1::nat) \<le> 2 \<and> (2::nat) \<le> 5 \<and>
   k_fold_cross_validation ex_rev_shuffle ex_decide [0, 1, 2, 3, 4] [1, 0, 1, 0, 1]
     ex_memo_model 2 ex_params (Fin (1 / 2)) () = Inr ((Fin (1 / 2), Fin 0), ()) \<and>
   first_error
     (map (\<lambda>i. spec_fold_scores ex_memo_model ex_decide [0, 1, 2, 3, 4] [1, 0, 1, 0, 1]
             ex_params (Fin (1 / 2))
             (train_indices [4, 3, 2, 1, 0] (5 div 2) i)
             (test_indices [4, 3, 2, 1, 0] (5 div 2) i)) [0..<2]) =
     Inr [(Fin (1 / 2), Fin 0), (Fin (1 / 2), Fin 0)] \<and>
   test_indices [4, 3, 2, 1, 0] (5 div 2) 0 = [4, 3] \<and>
   test_indices [4, 3, 2, 1, 0] (5 div 2) 1 = [2, 1] \<and>
   train_indices [4, 3, 2, 1, 0] (5 div 2) 0 = [0, 1, 2] \<and>
   train_indices [4, 3, 2, 1, 0] (5 div 2) 1 = [0, 3, 4] \<and>
   drop (5 - 5 mod 2) [4, 3, 2, 1, 0] = [0 :: nat] \<and>
   card (\<Union>i<2. set (test_indices [4, 3, 2, 1, 0] (5 div 2) i)) = 2 * (5 div 2)"
proof -
  have sh: "ex_rev_shuffle () (length [0, 1, 2, 3, 4 :: nat]) = ([4, 3, 2, 1, 0], ())"
    by code_simp
  have p: "sort [4, 3, 2, 1, 0] = [0..<(5::nat)]" by code_simp
  have lx: "length [0, 1, 2, 3, 4 :: nat] = 5" and ly: "length [1, 0, 1, 0, 1 :: int] = 5"
    by simp_all
  have k1: "(1::nat) \<le> 2" and k2: "(2::nat) \<le> 5" by simp_all
  have fe: "first_error
     (map (\<lambda>i. spec_fold_scores ex_memo_model ex_decide [0, 1, 2, 3, 4] [1, 0, 1, 0, 1]
             ex_params (Fin (1 / 2))
             (train_indices [4, 3, 2, 1, 0] (5 div 2) i)
             (test_indices [4, 3, 2, 1, 0] (5 div 2) i)) [0..<2]) =
     Inr [(Fin (1 / 2), Fin 0), (Fin (1 / 2), Fin 0)]"
    by code_simp
  have t0: "test_indices [4, 3, 2, 1, 0] (5 div 2) 0 = [4, 3]" by code_simp
  have t1: "test_indices [4, 3, 2, 1, 0] (5 div 2) 1 = [2, 1]" by code_simp
  have r0: "train_indices [4, 3, 2, 1, 0] (5 div 2) 0 = [0, 1, 2]" by code_simp
  have r1: "train_indices [4, 3, 2, 1, 0] (5 div 2) 1 = [0, 3, 4]" by code_simp
  have d: "drop (5 - 5 mod 2) [4, 3, 2, 1, 0] = [0 :: nat]" by simp
  note t = fold_partition [where shuffle = ex_rev_shuffle and gen = "()"
      and X = "[0, 1, 2, 3, 4]" and y = "[1, 0, 1, 0, 1]" and shuffled = "[4, 3, 2, 1, 0]"
      and gen' = "()" and N = 5 and k = 2 and decide = ex_decide and model = ex_memo_model
      and params = ex_params and threshold = "Fin (1 / 2)", OF sh p lx ly k1 k2]
  from t have run: "k_fold_cross_validation ex_rev_shuffle ex_decide [0, 1, 2, 3, 4]
      [1, 0, 1, 0, 1] ex_memo_model 2 ex_params (Fin (1 / 2)) () =
      Inr ((Fin (1 / 2), Fin 0), ())"
    unfolding fe by (simp add: np_mean_def)
  from t have c: "card (\<Union>i<2. set (test_indices [4, 3, 2, 1, 0] (5 div 2) i)) = 2 * (5 div 2)"
    by blast
  from sh p lx ly k1 k2 run fe t0 t1 r0 r1 d c show ?thesis by blast
qed

section \<open>Properties of the hyperparameter search\<close>

lemma spec_run_Nil: "spec_run [] = ((Fin 0, Fin 0), None)"
  by (simp add: spec_run_def)

lemma spec_run_snoc: "spec_run (sc @ [c]) = select_step (spec_run sc) (length sc, c)"
  by (simp add: spec_run_def)

lemma fl_ge_refl_iff: "fl_ge a a \<longleftrightarrow> a \<noteq> NaN"
  by (cases a) simp_all

lemma fl_ge_left_Fin: "fl_ge a b \<Longrightarrow> a \<noteq> NaN"
  by (cases a; cases b) simp_all

lemma spec_run_winner:
  "snd (spec_run sc) = Some n \<Longrightarrow>
   n < length sc \<and> fst (spec_run sc) = sc ! n \<and> replaces (sc ! n) (sc ! n) \<and>
   (\<forall>m. n < m \<and> m < length sc \<longrightarrow> sc ! m \<noteq> sc ! n)"
proof (induction sc arbitrary: n rule: rev_induct)
  case Nil
  then show ?case by (simp add: spec_run_Nil)
next
  case (snoc c sc)
  obtain best who where r: "spec_run sc = (best, who)" by (cases "spec_run sc")
  show ?case
  proof (cases "replaces c best")
    case True
    with snoc.prems r have n: "n = length sc" by (simp add: spec_run_snoc)
    from True have "replaces c c"
      by (auto simp add: replaces_def fl_ge_refl_iff dest: fl_ge_left_Fin)
    with n r True show ?thesis by (auto simp add: spec_run_snoc)
  next
    case False
    with snoc.prems r have w: "who = Some n" by (simp add: spec_run_snoc)
    with r snoc.IH [of n] have ih: "n < length sc" "best = sc ! n" "replaces (sc ! n) (sc ! n)"
      "\<forall>m. n < m \<and> m < length sc \<longrightarrow> sc ! m \<noteq> sc ! n" by simp_all
    from False ih(2,3) have ne: "c \<noteq> sc ! n" by auto
    have "\<forall>m. n < m \<and> m < length (sc @ [c]) \<longrightarrow> (sc @ [c]) ! m \<noteq> (sc @ [c]) ! n"
    proof (intro allI impI)
      fix m assume m: "n < m \<and> m < length (sc @ [c])"
      show "(sc @ [c]) ! m \<noteq> (sc @ [c]) ! n"
      proof (cases "m < length sc")
        case True
        with m ih(1,4) show ?thesis by (simp add: nth_append)
      next
        case False
        with m have "m = length sc" by simp
        with ne ih(1) show ?thesis by (simp add: nth_append)
      qed
    qed
    with r False w ih show ?thesis by (simp add: spec_run_snoc nth_append)
  qed
qed

lemma search_inv_step:
  assumes "search_inv st"
  shows "search_inv
     ((if fl_ge f1 (best_f1_score (st\<lparr>model_params := p, rng := r\<rparr>)) \<and>
          fl_ge acc (best_accuracy (st\<lparr>model_params := p, rng := r\<rparr>))
       then st\<lparr>model_params := p, rng := r, best_accuracy := acc, best_f1_score := f1,
              best_param_lambda := Some l, best_param_gamma := Some g\<rparr>
       else st\<lparr>model_params := p, rng := r\<rparr>)
      \<lparr>printed := printed st @ [(l, g, acc, f1)]\<rparr>)"
proof -
  let ?sc = "map scores_of (printed st)"
  obtain best who where r: "spec_run ?sc = (best, who)" by (cases "spec_run ?sc")
  from assms r have b: "best = (best_accuracy st, best_f1_score st)"
    and w: "(best_param_lambda st, best_param_gamma st) = returned_pair (printed st) who"
    by (simp_all add: search_inv_def)
  have run: "spec_run (map scores_of (printed st) @ [scores_of (l, g, acc, f1)]) =
      select_step (best, who) (length (printed st), (acc, f1))"
    using r by (simp add: spec_run_snoc scores_of_def)
  show ?thesis
  proof (cases "replaces (acc, f1) best")
    case True
    with b have c: "fl_ge f1 (best_f1_score st) \<and> fl_ge acc (best_accuracy st)"
      by (simp add: replaces_def)
    with True show ?thesis
      by (simp add: search_inv_def run returned_pair_def point_def)
  next
    case False
    with b have c: "\<not> (fl_ge f1 (best_f1_score st) \<and> fl_ge acc (best_accuracy st))"
      by (simp add: replaces_def)
    have "returned_pair (printed st @ [(l, g, acc, f1)]) who = returned_pair (printed st) who"
    proof (cases who)
      case None
      then show ?thesis by (simp add: returned_pair_def)
    next
      case (Some n)
      with r spec_run_winner [of ?sc n] have "n < length (printed st)" by simp
      with Some show ?thesis by (simp add: returned_pair_def nth_append)
    qed
    with False c b w show ?thesis
      by (auto simp add: search_inv_def run)
  qed
qed

lemma lambda_loop_facts:
  "lambda_loop cv gamma lambdas st = Inr st' \<Longrightarrow> search_inv st \<Longrightarrow>
   search_inv st' \<and>
   map point (printed st') = map point (printed st) @ map (\<lambda>l. (l, gamma)) lambdas \<and>
   model_params st' =
     (if lambdas = [] then model_params st
      else (model_params st)(''lambda_'' \<mapsto> last lambdas, ''gamma'' \<mapsto> gamma))"
proof (induction lambdas arbitrary: st)
  case Nil
  then show ?case by simp
next
  case (Cons l rest)
  let ?p = "(model_params st)(''lambda_'' \<mapsto> l, ''gamma'' \<mapsto> gamma)"
  from Cons.prems(1) obtain acc f1 r where
    cv: "cv ?p (rng st) = Inr ((acc, f1), r)"
    by (auto simp add: Let_def split: sum.splits)
  let ?st2 = "(if fl_ge f1 (best_f1_score (st\<lparr>model_params := ?p, rng := r\<rparr>)) \<and>
          fl_ge acc (best_accuracy (st\<lparr>model_params := ?p, rng := r\<rparr>))
       then st\<lparr>model_params := ?p, rng := r, best_accuracy := acc, best_f1_score := f1,
              best_param_lambda := Some l, best_param_gamma := Some gamma\<rparr>
       else st\<lparr>model_params := ?p, rng := r\<rparr>)
      \<lparr>printed := printed st @ [(l, gamma, acc, f1)]\<rparr>"
  from Cons.prems(1) cv have rest: "lambda_loop cv gamma rest ?st2 = Inr st'"
    by (auto simp add: Let_def split: if_splits)
  have inv2: "search_inv ?st2" using Cons.prems(2) by (rule search_inv_step)
  have pr2: "printed ?st2 = printed st @ [(l, gamma, acc, f1)]" by simp
  have mp2: "model_params ?st2 = ?p" by simp
  from Cons.IH [OF rest inv2] have
    ih1: "search_inv st'"
    and ih2: "map point (printed st') = map point (printed ?st2) @ map (\<lambda>l. (l, gamma)) rest"
    and ih3: "model_params st' =
     (if rest = [] then model_params ?st2
      else (model_params ?st2)(''lambda_'' \<mapsto> last rest, ''gamma'' \<mapsto> gamma))"
    by blast+
  have a: "map point (printed st') = map point (printed st) @ map (\<lambda>l. (l, gamma)) (l # rest)"
    unfolding ih2 pr2 by (simp add: point_def)
  have b: "model_params st' = (model_params st)(''lambda_'' \<mapsto> last (l # rest), ''gamma'' \<mapsto> gamma)"
    unfolding ih3 mp2 by (auto simp add: fun_eq_iff)
  from ih1 a b show ?case by simp
qed

lemma gamma_loop_facts:
  "gamma_loop cv lambdas gammas st = Inr st' \<Longrightarrow> search_inv st \<Longrightarrow>
   search_inv st' \<and>
   map point (printed st') = map point (printed st) @ grid_order lambdas gammas \<and>
   model_params st' =
     (if lambdas = [] \<or> gammas = [] then model_params st
      else (model_params st)(''lambda_'' \<mapsto> last lambdas, ''gamma'' \<mapsto> last gammas))"
proof (induction gammas arbitrary: st)
  case Nil
  then show ?case by (simp add: grid_order_def)
next
  case (Cons g rest)
  from Cons.prems(1) obtain st1 where
    l: "lambda_loop cv g lambdas st = Inr st1" and r: "gamma_loop cv lambdas rest st1 = Inr st'"
    by (auto split: sum.splits)
  from lambda_loop_facts [OF l Cons.prems(2)] have
    l1: "search_inv st1"
    and l2: "map point (printed st1) = map point (printed st) @ map (\<lambda>l. (l, g)) lambdas"
    and l3: "model_params st1 =
     (if lambdas = [] then model_params st
      else (model_params st)(''lambda_'' \<mapsto> last lambdas, ''gamma'' \<mapsto> g))"
    by blast+
  from Cons.IH [OF r l1] have
    ih1: "search_inv st'"
    and ih2: "map point (printed st') = map point (printed st1) @ grid_order lambdas rest"
    and ih3: "model_params st' =
     (if lambdas = [] \<or> rest = [] then model_params st1
      else (model_params st1)(''lambda_'' \<mapsto> last lambdas, ''gamma'' \<mapsto> last rest))"
    by blast+
  have a: "map point (printed st') = map point (printed st) @ grid_order lambdas (g # rest)"
    unfolding ih2 l2 by (simp add: grid_order_def)
  have b: "model_params st' =
     (if lambdas = [] \<or> g # rest = [] then model_params st
      else (model_params st)(''lambda_'' \<mapsto> last lambdas, ''gamma'' \<mapsto> last (g # rest)))"
    unfolding ih3 l3 by (auto simp add: fun_eq_iff)
  from ih1 a b show ?case by simp
qed

lemma hyperparameter_tuning_facts:
  assumes "hyperparameter_tuning shuffle decide X y model lambdas gammas params k rng0 =
      Inr (res, st)"
  shows "search_inv st"
    and "res = (best_param_lambda st, best_param_gamma st)"
    and "map point (printed st) = grid_order lambdas gammas"
    and "model_params st =
     (if lambdas = [] \<or> gammas = [] then params
      else params(''lambda_'' \<mapsto> last lambdas, ''gamma'' \<mapsto> last gammas))"
proof -
  let ?cv = "\<lambda>p r. k_fold_cross_validation shuffle decide X y model k p (Fin (1 / 2)) r"
  let ?st0 = "\<lparr>best_accuracy = Fin 0, best_f1_score = Fin 0,
              best_param_lambda = None, best_param_gamma = None,
              model_params = params, rng = rng0, printed = []\<rparr>"
  from assms have g: "gamma_loop ?cv lambdas gammas ?st0 = Inr st"
    and res: "res = (best_param_lambda st, best_param_gamma st)"
    by (auto simp add: hyperparameter_tuning_def split: sum.splits)
  have inv0: "search_inv ?st0"
    by (simp add: search_inv_def spec_run_Nil returned_pair_def)
  from gamma_loop_facts [OF g inv0] res
  show "search_inv st" "res = (best_param_lambda st, best_param_gamma st)"
    "map point (printed st) = grid_order lambdas gammas"
    "model_params st =
     (if lambdas = [] \<or> gammas = [] then params
      else params(''lambda_'' \<mapsto> last lambdas, ''gamma'' \<mapsto> last gammas))"
    by simp_all
qed

lemma replay_append:
  "replay cv params r (es @ fs) =
   (case replay cv params r es of None \<Rightarrow> None | Some r1 \<Rightarrow> replay cv params r1 fs)"
proof (induction es arbitrary: r)
  case Nil
  show ?case by simp
next
  case (Cons e es)
  obtain l g acc f1 where e: "e = (l, g, acc, f1)" by (cases e)
  show ?case by (simp add: e Cons.IH split: sum.splits prod.splits)
qed

lemma lambda_loop_replay:
  "lambda_loop cv gamma lambdas st = Inr st' \<Longrightarrow>
   (\<forall>key. key \<noteq> ''lambda_'' \<and> key \<noteq> ''gamma'' \<longrightarrow> model_params st key = params key) \<Longrightarrow>
   replay cv params r0 (printed st) = Some (rng st) \<Longrightarrow>
   (\<forall>key. key \<noteq> ''lambda_'' \<and> key \<noteq> ''gamma'' \<longrightarrow> model_params st' key = params key) \<and>
   replay cv params r0 (printed st') = Some (rng st')"
proof (induction lambdas arbitrary: st)
  case Nil
  then show ?case by simp
next
  case (Cons l rest)
  let ?p = "(model_params st)(''lambda_'' \<mapsto> l, ''gamma'' \<mapsto> gamma)"
  have peq: "?p = params(''lambda_'' \<mapsto> l, ''gamma'' \<mapsto> gamma)"
    using Cons.prems(2) by (auto simp add: fun_eq_iff)
  from Cons.prems(1) obtain acc f1 r where
    cv: "cv ?p (rng st) = Inr ((acc, f1), r)"
    by (auto simp add: Let_def split: sum.splits)
  let ?st2 = "(if fl_ge f1 (best_f1_score (st\<lparr>model_params := ?p, rng := r\<rparr>)) \<and>
          fl_ge acc (best_accuracy (st\<lparr>model_params := ?p, rng := r\<rparr>))
       then st\<lparr>model_params := ?p, rng := r, best_accuracy := acc, best_f1_score := f1,
              best_param_lambda := Some l, best_param_gamma := Some gamma\<rparr>
       else st\<lparr>model_params := ?p, rng := r\<rparr>)
      \<lparr>printed := printed st @ [(l, gamma, acc, f1)]\<rparr>"
  from Cons.prems(1) cv have rest: "lambda_loop cv gamma rest ?st2 = Inr st'"
    by (auto simp add: Let_def split: if_splits)
  have k2: "\<forall>key. key \<noteq> ''lambda_'' \<and> key \<noteq> ''gamma'' \<longrightarrow> model_params ?st2 key = params key"
    using Cons.prems(2) by simp
  have "replay cv params (rng st) [(l, gamma, acc, f1)] = Some r"
    using cv peq by simp
  then have r2: "replay cv params r0 (printed ?st2) = Some (rng ?st2)"
    using Cons.prems(3) by (simp add: replay_append)
  from Cons.IH [OF rest k2 r2] show ?case .
qed

lemma gamma_loop_replay:
  "gamma_loop cv lambdas gammas st = Inr st' \<Longrightarrow>
   (\<forall>key. key \<noteq> ''lambda_'' \<and> key \<noteq> ''gamma'' \<longrightarrow> model_params st key = params key) \<Longrightarrow>
   replay cv params r0 (printed st) = Some (rng st) \<Longrightarrow>
   (\<forall>key. key \<noteq> ''lambda_'' \<and> key \<noteq> ''gamma'' \<longrightarrow> model_params st' key = params key) \<and>
   replay cv params r0 (printed st') = Some (rng st')"
proof (induction gammas arbitrary: st)
  case Nil
  then show ?case by simp
next
  case (Cons g rest)
  from Cons.prems(1) obtain st1 where
    l: "lambda_loop cv g lambdas st = Inr st1" and r: "gamma_loop cv lambdas rest st1 = Inr st'"
    by (auto split: sum.splits)
  from lambda_loop_replay [OF l Cons.prems(2,3)] have
    a: "\<forall>key. key \<noteq> ''lambda_'' \<and> key \<noteq> ''gamma'' \<longrightarrow> model_params st1 key = params key"
    and b: "replay cv params r0 (printed st1) = Some (rng st1)" by blast+
  from Cons.IH [OF r a b] show ?case .
qed

lemma hyperparameter_tuning_replay:
  assumes "hyperparameter_tuning shuffle decide X y model lambdas gammas params k rng0 =
      Inr (res, st)"
  shows "replay (\<lambda>p r. k_fold_cross_validation shuffle decide X y model k p (Fin (1 / 2)) r)
      params rng0 (printed st) = Some (rng st)"
proof -
  let ?cv = "\<lambda>p r. k_fold_cross_validation shuffle decide X y model k p (Fin (1 / 2)) r"
  let ?st0 = "\<lparr>best_accuracy = Fin 0, best_f1_score = Fin 0,
              best_param_lambda = None, best_param_gamma = None,
              model_params = params, rng = rng0, printed = []\<rparr>"
  from assms have g: "gamma_loop ?cv lambdas gammas ?st0 = Inr st"
    by (auto simp add: hyperparameter_tuning_def split: sum.splits)
  have a: "\<forall>key. key \<noteq> ''lambda_'' \<and> key \<noteq> ''gamma'' \<longrightarrow> model_params ?st0 key = params key"
    by simp
  have b: "replay ?cv params rng0 (printed ?st0) = Some (rng ?st0)" by simp
  from gamma_loop_replay [OF g a b] show ?thesis by blast
qed

lemma spec_run_winner_iff:
  "snd (spec_run sc) = Some j \<longleftrightarrow>
   j < length sc \<and> replaces (sc ! j) (fst (spec_run (take j sc))) \<and>
   (\<forall>m. j < m \<and> m < length sc \<longrightarrow> \<not> replaces (sc ! m) (sc ! j))"
proof (induction sc arbitrary: j rule: rev_induct)
  case Nil
  show ?case by (simp add: spec_run_Nil)
next
  case (snoc c s)
  obtain b w where r: "spec_run s = (b, w)" by (cases "spec_run s")
  have run: "spec_run (s @ [c]) = select_step (b, w) (length s, c)"
    by (simp add: spec_run_snoc r)
  consider "j < length s" | "j = length s" | "length s < j" by linarith
  then show ?case
  proof cases
    case 1
    have tk: "take j (s @ [c]) = take j s" using 1 by simp
    have nj: "(s @ [c]) ! j = s ! j" using 1 by (simp add: nth_append)
    have later: "(\<forall>m. j < m \<and> m < length (s @ [c]) \<longrightarrow> \<not> replaces ((s @ [c]) ! m) (s ! j)) \<longleftrightarrow>
        (\<forall>m. j < m \<and> m < length s \<longrightarrow> \<not> replaces (s ! m) (s ! j)) \<and> \<not> replaces c (s ! j)"
    proof
      assume h: "\<forall>m. j < m \<and> m < length (s @ [c]) \<longrightarrow> \<not> replaces ((s @ [c]) ! m) (s ! j)"
      have "\<forall>m. j < m \<and> m < length s \<longrightarrow> \<not> replaces (s ! m) (s ! j)"
      proof (intro allI impI)
        fix m assume m: "j < m \<and> m < length s"
        with h have "\<not> replaces ((s @ [c]) ! m) (s ! j)" by simp
        with m show "\<not> replaces (s ! m) (s ! j)" by (simp add: nth_append)
      qed
      moreover have "j < length s \<and> length s < length (s @ [c])" using 1 by simp
      with h have "\<not> replaces ((s @ [c]) ! length s) (s ! j)" by blast
      ultimately show "(\<forall>m. j < m \<and> m < length s \<longrightarrow> \<not> replaces (s ! m) (s ! j)) \<and>
          \<not> replaces c (s ! j)" by simp
    next
      assume h: "(\<forall>m. j < m \<and> m < length s \<longrightarrow> \<not> replaces (s ! m) (s ! j)) \<and>
          \<not> replaces c (s ! j)"
      show "\<forall>m. j < m \<and> m < length (s @ [c]) \<longrightarrow> \<not> replaces ((s @ [c]) ! m) (s ! j)"
      proof (intro allI impI)
        fix m assume m: "j < m \<and> m < length (s @ [c])"
        show "\<not> replaces ((s @ [c]) ! m) (s ! j)"
        proof (cases "m < length s")
          case True
          with m h show ?thesis by (simp add: nth_append)
        next
          case False
          with m have "m = length s" by simp
          with h show ?thesis by simp
        qed
      qed
    qed
    show ?thesis
    proof
      assume w': "snd (spec_run (s @ [c])) = Some j"
      with run 1 have nr: "\<not> replaces c b" and wj: "w = Some j"
        by (auto split: if_splits)
      from wj r have ws: "snd (spec_run s) = Some j" by simp
      with snoc.IH [of j] have ih: "replaces (s ! j) (fst (spec_run (take j s)))"
        "\<forall>m. j < m \<and> m < length s \<longrightarrow> \<not> replaces (s ! m) (s ! j)" by simp_all
      from spec_run_winner [OF ws] r have "b = s ! j" by simp
      with nr have "\<not> replaces c (s ! j)" by simp
      with ih later 1 show "j < length (s @ [c]) \<and>
          replaces ((s @ [c]) ! j) (fst (spec_run (take j (s @ [c])))) \<and>
          (\<forall>m. j < m \<and> m < length (s @ [c]) \<longrightarrow> \<not> replaces ((s @ [c]) ! m) ((s @ [c]) ! j))"
        by (simp add: tk nj)
    next
      assume h: "j < length (s @ [c]) \<and>
          replaces ((s @ [c]) ! j) (fst (spec_run (take j (s @ [c])))) \<and>
          (\<forall>m. j < m \<and> m < length (s @ [c]) \<longrightarrow> \<not> replaces ((s @ [c]) ! m) ((s @ [c]) ! j))"
      from h [unfolded tk nj] have h1: "replaces (s ! j) (fst (spec_run (take j s)))"
        and h2: "\<forall>m. j < m \<and> m < length (s @ [c]) \<longrightarrow> \<not> replaces ((s @ [c]) ! m) (s ! j)"
        by blast+
      from h2 later have l1: "\<forall>m. j < m \<and> m < length s \<longrightarrow> \<not> replaces (s ! m) (s ! j)"
        and l2: "\<not> replaces c (s ! j)" by simp_all
      from snoc.IH [of j] 1 h1 l1 have ws: "snd (spec_run s) = Some j" by simp
      from spec_run_winner [OF ws] r have "b = s ! j" by simp
      with l2 have "\<not> replaces c b" by simp
      with run ws r show "snd (spec_run (s @ [c])) = Some j" by simp
    qed
  next
    case 2
    have tk: "take j (s @ [c]) = s" using 2 by simp
    have nj: "(s @ [c]) ! j = c" using 2 by simp
    have "snd (spec_run (s @ [c])) = Some j \<longleftrightarrow> replaces c b"
    proof
      assume w': "snd (spec_run (s @ [c])) = Some j"
      show "replaces c b"
      proof (rule ccontr)
        assume "\<not> replaces c b"
        with run w' have "w = Some j" by simp
        with r have "snd (spec_run s) = Some j" by simp
        from spec_run_winner [OF this] 2 show False by simp
      qed
    next
      assume "replaces c b"
      with run 2 show "snd (spec_run (s @ [c])) = Some j" by simp
    qed
    with 2 r show ?thesis by (auto simp add: tk nj)
  next
    case 3
    have "snd (spec_run (s @ [c])) \<noteq> Some j"
    proof
      assume "snd (spec_run (s @ [c])) = Some j"
      from spec_run_winner [OF this] 3 show False by simp
    qed
    with 3 show ?thesis by simp
  qed
qed

text \<open>
  Claim C1, as amended. The search evaluates the grid with \<open>gamma\<close> in the outer and
  \<open>lambda\<close> in the inner loop; every printed line carries the scores the cross-validator
  returned on the dictionary with that line's own \<open>lambda_\<close> and \<open>gamma\<close>. The recorded
  best scores and the returned pair are those of \<open>spec_run\<close>, in which a candidate
  replaces the best exactly when its f1 and its accuracy are both at least the best
  ones. Of two grid points with identical scores the earlier one does not hold the
  final record, and a point holds the final record, and is the one returned, exactly
  when it meets the record at the moment it is evaluated and no point after it meets its
  scores; so the later of two tied points is returned under that condition and under no
  other.
\<close>

theorem hyperparameter_tuning_selection:
  assumes "hyperparameter_tuning shuffle decide X y model lambdas gammas params k rng0 =
      Inr (res, st)"
  shows "map point (printed st) = grid_order lambdas gammas \<and>
    replay (\<lambda>p r. k_fold_cross_validation shuffle decide X y model k p (Fin (1 / 2)) r)
      params rng0 (printed st) = Some (rng st) \<and>
    (best_accuracy st, best_f1_score st) = fst (spec_run (map scores_of (printed st))) \<and>
    res = returned_pair (printed st) (snd (spec_run (map scores_of (printed st)))) \<and>
    (\<forall>i j. i < j \<and> j < length (printed st) \<and>
        scores_of (printed st ! i) = scores_of (printed st ! j) \<longrightarrow>
        snd (spec_run (map scores_of (printed st))) \<noteq> Some i) \<and>
    (\<forall>j<length (printed st).
        snd (spec_run (map scores_of (printed st))) = Some j \<longleftrightarrow>
        replaces (scores_of (printed st ! j))
          (fst (spec_run (map scores_of (take j (printed st))))) \<and>
        (\<forall>m. j < m \<and> m < length (printed st) \<longrightarrow>
           \<not> replaces (scores_of (printed st ! m)) (scores_of (printed st ! j))))"
proof -
  let ?sc = "map scores_of (printed st)"
  note f = hyperparameter_tuning_facts [OF assms]
  have a: "map point (printed st) = grid_order lambdas gammas" by (rule f(3))
  have rp: "replay (\<lambda>p r. k_fold_cross_validation shuffle decide X y model k p (Fin (1 / 2)) r)
      params rng0 (printed st) = Some (rng st)"
    using assms by (rule hyperparameter_tuning_replay)
  have b: "(best_accuracy st, best_f1_score st) = fst (spec_run ?sc)"
    using f(1) by (simp add: search_inv_def)
  have c: "res = returned_pair (printed st) (snd (spec_run ?sc))"
    using f(1,2) by (simp add: search_inv_def)
  have d: "\<forall>i j. i < j \<and> j < length (printed st) \<and>
        scores_of (printed st ! i) = scores_of (printed st ! j) \<longrightarrow>
        snd (spec_run ?sc) \<noteq> Some i"
  proof (intro allI impI notI)
    fix i j
    assume h: "i < j \<and> j < length (printed st) \<and>
        scores_of (printed st ! i) = scores_of (printed st ! j)"
      and w: "snd (spec_run ?sc) = Some i"
    from spec_run_winner [OF w] have "\<forall>m. i < m \<and> m < length ?sc \<longrightarrow> ?sc ! m \<noteq> ?sc ! i"
      by simp
    with h show False by auto
  qed
  have e: "\<forall>j<length (printed st).
        snd (spec_run ?sc) = Some j \<longleftrightarrow>
        replaces (scores_of (printed st ! j))
          (fst (spec_run (map scores_of (take j (printed st))))) \<and>
        (\<forall>m. j < m \<and> m < length (printed st) \<longrightarrow>
           \<not> replaces (scores_of (printed st ! m)) (scores_of (printed st ! j)))"
  proof (intro allI impI)
    fix j assume j: "j < length (printed st)"
    have "(\<forall>m. j < m \<and> m < length ?sc \<longrightarrow> \<not> replaces (?sc ! m) (?sc ! j)) \<longleftrightarrow>
        (\<forall>m. j < m \<and> m < length (printed st) \<longrightarrow>
           \<not> replaces (scores_of (printed st ! m)) (scores_of (printed st ! j)))"
      using j by auto
    with spec_run_winner_iff [of ?sc j] j
    show "snd (spec_run ?sc) = Some j \<longleftrightarrow>
        replaces (scores_of (printed st ! j))
          (fst (spec_run (map scores_of (take j (printed st))))) \<and>
        (\<forall>m. j < m \<and> m < length (printed st) \<longrightarrow>
           \<not> replaces (scores_of (printed st ! m)) (scores_of (printed st ! j)))"
      by (simp add: take_map)
  qed
  from a rp b c d e show ?thesis by blast
qed

text \<open>
  Against claim C1 as stated: with scores \<open>(1, 1)\<close>, \<open>(0, 0)\<close>, \<open>(0, 0)\<close> the second
  and third grid points have identical scores, and the search returns the first point,
  not the third.
\<close>

theorem later_tie_not_returned:
  "(case hyperparameter_tuning ex_shuffle ex_decide [0, 1] [1, 0] ex_model
           [[0], [1], [1, 1]] [[]] ex_params 1 () of
      Inl e \<Rightarrow> None
    | Inr (res, st) \<Rightarrow> Some (res, printed st)) =
   Some ((Some [0], Some []),
         [([0], [], Fin 1, Fin 1), ([1], [], Fin 0, Fin 0), ([1, 1], [], Fin 0, Fin 0)])"
  by code_simp

text \<open>
  A run in which the later of two tied points is returned although a point after them
  has the higher f1: the scores are \<open>(2/3, 0)\<close>, \<open>(2/3, 0)\<close> and \<open>(1/3, 1/2)\<close>.
\<close>

theorem hyperparameter_tuning_selection_witness:
  "\<exists>st. hyperparameter_tuning ex_shuffle ex_decide [0, 1, 2] [1, 0, 0] ex_model
           [[], [5], [0, 1, 2]] [[]] ex_params 1 () = Inr ((Some [5], Some []), st) \<and>
     printed st = [([], [], Fin (2 / 3), Fin 0), ([5], [], Fin (2 / 3), Fin 0),
                   ([0, 1, 2], [], Fin (1 / 3), Fin (1 / 2))] \<and>
     map point (printed st) = grid_order [[], [5], [0, 1, 2]] [[]] \<and>
     replay (\<lambda>p r. k_fold_cross_validation ex_shuffle ex_decide [0, 1, 2] [1, 0, 0] ex_model 1 p
                (Fin (1 / 2)) r) ex_params () (printed st) = Some (rng st) \<and>
     (best_accuracy st, best_f1_score st) = (Fin (2 / 3), Fin 0) \<and>
     snd (spec_run (map scores_of (printed st))) \<noteq> Some 0 \<and>
     snd (spec_run (map scores_of (printed st))) = Some 1"
proof -
  let ?ht = "hyperparameter_tuning ex_shuffle ex_decide [0, 1, 2] [1, 0, 0] ex_model
           [[], [5], [0, 1, 2]] [[]] ex_params 1 ()"
  let ?tr = "[([], [], Fin (2 / 3), Fin 0), ([5], [], Fin (2 / 3), Fin 0),
              ([0, 1, 2], [], Fin (1 / 3), Fin (1 / 2))]
    :: (nat list \<times> nat list \<times> fl \<times> fl) list"
  have ev: "(case ?ht of Inl e \<Rightarrow> None | Inr (res, st) \<Rightarrow> Some (res, printed st)) =
      Some ((Some [5], Some []), ?tr)"
    by code_simp
  then obtain st where run: "?ht = Inr ((Some [5], Some []), st)"
    and pr: "printed st = ?tr"
    by (cases ?ht) (auto split: prod.splits)
  note t = hyperparameter_tuning_selection [OF run]
  from t have a: "map point (printed st) = grid_order [[], [5], [0, 1, 2]] [[]]" by blast
  from t have rp: "replay (\<lambda>p r. k_fold_cross_validation ex_shuffle ex_decide [0, 1, 2]
      [1, 0, 0] ex_model 1 p (Fin (1 / 2)) r) ex_params () (printed st) = Some (rng st)"
    by blast
  from t have b: "(best_accuracy st, best_f1_score st) =
      fst (spec_run (map scores_of (printed st)))" by blast
  from t have d: "\<forall>i j. i < j \<and> j < length (printed st) \<and>
        scores_of (printed st ! i) = scores_of (printed st ! j) \<longrightarrow>
        snd (spec_run (map scores_of (printed st))) \<noteq> Some i" by blast
  from t have e: "\<forall>j<length (printed st).
        snd (spec_run (map scores_of (printed st))) = Some j \<longleftrightarrow>
        replaces (scores_of (printed st ! j))
          (fst (spec_run (map scores_of (take j (printed st))))) \<and>
        (\<forall>m. j < m \<and> m < length (printed st) \<longrightarrow>
           \<not> replaces (scores_of (printed st ! m)) (scores_of (printed st ! j)))" by blast
  have len: "length (printed st) = 3" by (simp add: pr)
  have "(0::nat) < 1 \<and> 1 < length (printed st) \<and>
        scores_of (printed st ! 0) = scores_of (printed st ! 1)"
    by (simp add: pr scores_of_def)
  with d have n0: "snd (spec_run (map scores_of (printed st))) \<noteq> Some 0" by blast
  have l: "1 < length (printed st)" by (simp add: pr)
  have meets: "replaces (scores_of (printed st ! 1))
      (fst (spec_run (map scores_of (take 1 (printed st)))))"
    unfolding pr by code_simp
  have later: "\<not> replaces (scores_of (printed st ! 2)) (scores_of (printed st ! 1))"
    unfolding pr by code_simp
  have nolater: "\<forall>m. 1 < m \<and> m < length (printed st) \<longrightarrow>
      \<not> replaces (scores_of (printed st ! m)) (scores_of (printed st ! 1))"
  proof (intro allI impI)
    fix m assume "1 < m \<and> m < length (printed st)"
    with len have "m = 2" by arith
    with later show "\<not> replaces (scores_of (printed st ! m)) (scores_of (printed st ! 1))"
      by simp
  qed
  from e l meets nolater have w1: "snd (spec_run (map scores_of (printed st))) = Some 1"
    by blast
  have "fst (spec_run (map scores_of ?tr)) = (Fin (2 / 3), Fin 0)" by code_simp
  with b pr have b': "(best_accuracy st, best_f1_score st) = (Fin (2 / 3), Fin 0)" by simp
  from run pr a rp b' n0 w1 show ?thesis by blast
qed

text \<open>
  Claim C10. When both sequences are non-empty and the search returns, the caller's
  dictionary holds the last \<open>lambda\<close> under \<open>lambda_\<close> and the last \<open>gamma\<close> under
  \<open>gamma\<close>, and every other key holds what it held before.
\<close>

theorem hyperparameter_tuning_params:
  assumes "hyperparameter_tuning shuffle decide X y model lambdas gammas params k rng0 =
      Inr (res, st)"
    and "lambdas \<noteq> []" and "gammas \<noteq> []"
  shows "model_params st ''lambda_'' = Some (last lambdas) \<and>
     model_params st ''gamma'' = Some (last gammas) \<and>
     (\<forall>key. key \<noteq> ''lambda_'' \<and> key \<noteq> ''gamma'' \<longrightarrow> model_params st key = params key)"
  using hyperparameter_tuning_facts(4) [OF assms(1)] assms(2,3) by simp

theorem hyperparameter_tuning_params_witness:
  "\<exists>st. hyperparameter_tuning ex_shuffle ex_decide [0, 1] [1, 0] ex_model
           [[0], [1], [1, 1]] [[]] ex_params 1 () = Inr ((Some [0], Some []), st) \<and>
     [[0], [1], [1, 1]] \<noteq> ([] :: nat list list) \<and> [[]] \<noteq> ([] :: nat list list) \<and>
     model_params st ''lambda_'' = Some [1, 1] \<and>
     model_params st ''gamma'' = Some [] \<and>
     model_params st ''max_iters'' = ex_params ''max_iters''"
proof -
  let ?ht = "hyperparameter_tuning ex_shuffle ex_decide [0, 1] [1, 0] ex_model
           [[0], [1], [1, 1]] [[]] ex_params 1 ()"
  have ev: "(case ?ht of Inl e \<Rightarrow> None | Inr (res, st) \<Rightarrow> Some res) = Some (Some [0], Some [])"
    by code_simp
  then obtain st where run: "?ht = Inr ((Some [0], Some []), st)"
    by (cases ?ht) (auto split: prod.splits)
  have n1: "[[0], [1], [1, 1]] \<noteq> ([] :: nat list list)" and n2: "[[]] \<noteq> ([] :: nat list list)"
    by simp_all
  from hyperparameter_tuning_params [OF run n1 n2]
  have "model_params st ''lambda_'' = Some [1, 1] \<and>
     model_params st ''gamma'' = Some [] \<and>
     model_params st ''max_iters'' = ex_params ''max_iters''" by simp
  with run n1 n2 show ?thesis by blast
qed

section \<open>Properties of the cross-validator\<close>

lemma slice_subset: "set (slice xs lo hi) \<subseteq> set xs"
  unfolding slice_def by (meson in_set_dropD in_set_takeD subsetI)

lemma fold_scores_short_labels:
  assumes "length y < length X" and "sort indices = [0..<length X]"
  shows "fold_scores model decide X y params threshold indices fold_size i = Inl IndexError"
proof -
  let ?test = "test_indices indices fold_size i"
  let ?train = "train_indices indices fold_size i"
  have s: "set indices = {0..<length X}"
  proof -
    have "set (sort indices) = {0..<length X}" using assms(2) by simp
    then show ?thesis by simp
  qed
  have te: "set ?test \<subseteq> {0..<length X}"
    unfolding test_indices_def using slice_subset [of indices] s by blast
  have tr: "set ?train = {0..<length X} - set ?test"
    unfolding train_indices_def by (auto simp add: setdiff1d_def s)
  have x1: "take_rows X ?train = Inr (map (\<lambda>i. X ! i) ?train)"
    using tr by (auto simp add: take_rows_def list_all_iff)
  have x2: "take_rows X ?test = Inr (map (\<lambda>i. X ! i) ?test)"
    using te by (auto simp add: take_rows_def list_all_iff)
  have "length y \<in> set ?train \<or> length y \<in> set ?test"
    using tr assms(1) by auto
  then have y12: "take_rows y ?train = Inl IndexError \<or> take_rows y ?test = Inl IndexError"
    by (auto simp add: take_rows_def list_all_iff)
  have y1: "take_rows y ?train = Inl IndexError \<or>
      take_rows y ?train = Inr (map (\<lambda>i. y ! i) ?train)"
    by (simp add: take_rows_def)
  from y12 y1 show ?thesis
    unfolding fold_scores_def Let_def x1 x2 by auto
qed

lemma k_fold_short_labels_raise:
  assumes "length y < length X" and "0 < k"
    and "sort (fst (shuffle gen (length X))) = [0..<length X]"
  shows "k_fold_cross_validation shuffle decide X y model k params threshold gen =
     Inl IndexError"
proof -
  obtain indices gen' where sh: "shuffle gen (length X) = (indices, gen')"
    by (cases "shuffle gen (length X)")
  with assms(3) have p: "sort indices = [0..<length X]" by simp
  from assms(2) obtain rest where folds: "[0..<nat k] = 0 # rest"
    by (cases "[0..<nat k]") (auto simp add: upt_eq_Cons_conv)
  show ?thesis
    using assms(2)
    by (simp add: k_fold_cross_validation_def sh folds
        fold_scores_short_labels [OF assms(1) p])
qed

text \<open>
  Claim C8. The cross-validator fails when the number of rows of \<open>X\<close> differs from the
  length of \<open>y\<close>. It has no such check: with two samples and three labels it trains on
  both folds and returns scores, the third label unused. (With fewer labels than
  samples, indexing \<open>y\<close> raises \<open>IndexError\<close> in the first fold, before the model is
  called: \<open>k_fold_short_labels_raise\<close>.)
\<close>

theorem k_fold_longer_labels_accepted:
  "length [0, 1 :: nat] \<noteq> length [1, 0, 1 :: int] \<and>
   k_fold_cross_validation ex_shuffle ex_decide [0, 1] [1, 0, 1] ex_model 2
     (ex_params(''lambda_'' \<mapsto> [0])) (Fin (1 / 2)) () = Inr ((Fin 1, Fin (1 / 2)), ())"
  by code_simp

end
